theory Spec2Isabelle
  imports Main "HOL-Library.Word"
begin

unbundle bit_operations_syntax

section \<open>Shallow embedding of tetris.cpp\<close>

text \<open>
  The game core of \<^verbatim>\<open>src/tetris/tetris.cpp\<close> as HOL functions. The singletons
  (Playfield, ScoreBoard, Timer, TetrominoController, GameStateManager) become records
  that are passed explicitly. Cell coordinates and row counts are \<open>int\<close>: every
  coordinate of a piece on the board lies within a few cells of the 10 x 22 grid, and
  a coordinate near either end of the C++ \<open>int\<close> range is outside the grid whether
  or not it wraps. The counters of the score board are C++ \<open>int\<close> and grow without
  bound while the game runs, so they are 32-bit words read with \<open>sint\<close>; the tick
  counters are the \<open>Uint32\<close> of SDL. Calls that only draw or set the window title
  have no effect on the game state and are left out.
\<close>

subsection \<open>Constants and plain data\<close>

abbreviation (input) CELL_COLUMNS :: int where "CELL_COLUMNS \<equiv> 10"
abbreviation (input) CELL_ROWS :: int where "CELL_ROWS \<equiv> 22"
abbreviation (input) VISABLE_ROWS :: int where "VISABLE_ROWS \<equiv> 20"
abbreviation (input) HIDDEN_ROWS :: int where "HIDDEN_ROWS \<equiv> CELL_ROWS - VISABLE_ROWS"
abbreviation (input) NEXT_PIECES_COUNT :: nat where "NEXT_PIECES_COUNT \<equiv> 3"

type_synonym Uint32 = "32 word"
type_synonym Uint16 = "16 word"
type_synonym Uint8 = "8 word"
type_synonym cint = "32 word"

text \<open>
  What ends the program: an uncaught \<open>std::out_of_range\<close> of \<open>at()\<close>, the
  \<open>exit(EXIT_SUCCESS)\<close> of the exit prompt, and the two operations that C++ leaves
  undefined and the code relies on never happening (\<open>front()\<close> of an empty list, a
  division by zero).
\<close>

datatype halt = out_of_range | exit_success | front_of_empty | division_by_zero

datatype SDL_Color = SDL_Color Uint8 Uint8 Uint8 Uint8

record Cell =
  column :: int
  row :: int

text \<open>\<open>using Cells = array<Cell, 4>\<close>: exactly four cells.\<close>

datatype Cells = Cells (at0: Cell) (at1: Cell) (at2: Cell) (at3: Cell)

fun cells_list :: "Cells \<Rightarrow> Cell list" where
  "cells_list (Cells c0 c1 c2 c3) = [c0, c1, c2, c3]"

fun map_cells :: "(Cell \<Rightarrow> Cell) \<Rightarrow> Cells \<Rightarrow> Cells" where
  "map_cells f (Cells c0 c1 c2 c3) = Cells (f c0) (f c1) (f c2) (f c3)"

subsection \<open>Playfield\<close>

record Block =
  color :: SDL_Color
  filled :: bool

type_synonym Row = "Block list"

text \<open>\<open>Row()\<close>: a value-initialised row, ten blocks that are not filled.\<close>

definition Row_init :: Row where
  "Row_init = replicate (nat CELL_COLUMNS) \<lparr>color = SDL_Color 0 0 0 0, filled = False\<rparr>"

text \<open>
  The board of the running program is a \<open>vector\<close> of 22 rows of 10 blocks; the model
  keeps it as a list of lists and states the shape where a claim needs it.
\<close>

definition Playfield_shape :: "Row list \<Rightarrow> bool" where
  "Playfield_shape mPlayfield =
     (length mPlayfield = nat CELL_ROWS \<and> list_all (\<lambda>r. length r = nat CELL_COLUMNS) mPlayfield)"

text \<open>\<open>Playfield::reset\<close>: resize to 22 rows, then clear every \<open>filled\<close> flag.\<close>

definition Playfield_reset :: "Row list \<Rightarrow> Row list" where
  "Playfield_reset mPlayfield =
     map (map (\<lambda>block. block\<lparr>filled := False\<rparr>))
       (take (nat CELL_ROWS) mPlayfield @ replicate (nat CELL_ROWS - length mPlayfield) Row_init)"

text \<open>\<open>bool Playfield::isFilled(int column, int row) const\<close>\<close>

definition isFilled_at :: "Row list \<Rightarrow> int \<Rightarrow> int \<Rightarrow> bool" where
  "isFilled_at mPlayfield c r =
     (r < 0 \<or> r \<ge> CELL_ROWS \<or> c < 0 \<or> c \<ge> CELL_COLUMNS
      \<or> filled (mPlayfield ! nat r ! nat c))"

text \<open>\<open>bool Playfield::isFilled(const Cells&) const\<close>\<close>

definition isFilled :: "Row list \<Rightarrow> Cells \<Rightarrow> bool" where
  "isFilled mPlayfield cells =
     list_ex (\<lambda>cell. isFilled_at mPlayfield (column cell) (row cell)) (cells_list cells)"

text \<open>A cell of the 10 x 22 grid.\<close>

definition inGrid :: "Cell \<Rightarrow> bool" where
  "inGrid c = (0 \<le> row c \<and> row c < CELL_ROWS \<and> 0 \<le> column c \<and> column c < CELL_COLUMNS)"

text \<open>
  \<open>Playfield::getLandingSpot\<close>. The inner loop asks whether some cell has a blocked
  cell directly below it; the endless outer \<open>for\<close> returns the cells as soon as that
  is so, and otherwise moves every cell one row down.
\<close>

definition blockedBelow :: "Row list \<Rightarrow> Cells \<Rightarrow> bool" where
  "blockedBelow mPlayfield landingSpot =
     list_ex (\<lambda>cell. isFilled_at mPlayfield (column cell) (row cell + 1)) (cells_list landingSpot)"

function getLandingSpot :: "Row list \<Rightarrow> Cells \<Rightarrow> Cells" where
  "getLandingSpot mPlayfield landingSpot =
     (if blockedBelow mPlayfield landingSpot then landingSpot
      else getLandingSpot mPlayfield (map_cells (\<lambda>cell. cell\<lparr>row := row cell + 1\<rparr>) landingSpot))"
  by pat_completeness auto
termination
  apply (relation "measure (\<lambda>(mPlayfield, landingSpot). nat (CELL_ROWS - row (at0 landingSpot)))")
   apply simp
  subgoal for mPlayfield landingSpot
    by (cases landingSpot) (simp add: blockedBelow_def isFilled_at_def)
  done

declare getLandingSpot.simps [simp del]

text \<open>The cells moved \<open>d\<close> rows down, to say where a piece ends up.\<close>

definition shiftRows :: "int \<Rightarrow> Cells \<Rightarrow> Cells" where
  "shiftRows d cells = map_cells (\<lambda>cell. cell\<lparr>row := row cell + d\<rparr>) cells"

text \<open>
  \<open>Playfield::onLanding\<close>, first loop: \<open>mPlayfield.at(cell.row).at(cell.column)\<close>
  throws for an index outside the vector or the row (a negative \<open>int\<close> becomes a huge
  \<open>size_t\<close>).
\<close>

fun fillCells :: "Cell list \<Rightarrow> SDL_Color \<Rightarrow> Row list \<Rightarrow> halt + Row list" where
  "fillCells [] clr mPlayfield = Inr mPlayfield"
| "fillCells (cell # cells) clr mPlayfield =
     (if row cell < 0 \<or> row cell \<ge> int (length mPlayfield) then Inl out_of_range
      else if column cell < 0 \<or> column cell \<ge> int (length (mPlayfield ! nat (row cell)))
      then Inl out_of_range
      else fillCells cells clr
             (mPlayfield[nat (row cell) :=
                (mPlayfield ! nat (row cell))[nat (column cell) := \<lparr>color = clr, filled = True\<rparr>]]))"

text \<open>
  Second loop: walk the rows from \<open>begin()\<close>, erase each row whose blocks are all
  filled and count it.
\<close>

fun eraseFilledRows :: "Row list \<Rightarrow> int \<Rightarrow> Row list \<times> int" where
  "eraseFilledRows [] cleared = ([], cleared)"
| "eraseFilledRows (r # rest) cleared =
     (if list_all filled r then eraseFilledRows rest (cleared + 1)
      else (case eraseFilledRows rest cleared of (rest', cleared') \<Rightarrow> (r # rest', cleared')))"

text \<open>Third loop: \<open>cleared\<close> times \<open>emplace(begin(), Row())\<close>.\<close>

definition onLanding :: "Row list \<Rightarrow> Cells \<Rightarrow> SDL_Color \<Rightarrow> halt + (Row list \<times> int)" where
  "onLanding mPlayfield cells clr =
     (case fillCells (cells_list cells) clr mPlayfield of
        Inl e \<Rightarrow> Inl e
      | Inr marked \<Rightarrow>
          (case eraseFilledRows marked 0 of
             (kept, cleared) \<Rightarrow> Inr (((#) Row_init ^^ nat cleared) kept, cleared)))"

subsection \<open>Tetrominoes\<close>

text \<open>The seven final classes derived from \<open>ITetromino\<close>, and \<open>enum State\<close>.\<close>

datatype Kind =
  I_Tetromino | O_Tetromino | T_Tetromino | J_Tetromino | L_Tetromino | S_Tetromino | Z_Tetromino

datatype State = Up | Right | Down | Left

fun State_index :: "State \<Rightarrow> nat" where
  "State_index Up = 0"
| "State_index Right = 1"
| "State_index Down = 2"
| "State_index Left = 3"

text \<open>\<open>static_cast<State>((mState + 1) % STATES_COUNT)\<close>\<close>

fun nextState :: "State \<Rightarrow> State" where
  "nextState Up = Right"
| "nextState Right = Down"
| "nextState Down = Left"
| "nextState Left = Up"

record ITetromino =
  kind :: Kind
  mLeft :: int
  mBottom :: int
  mState :: State
  mLockTicks :: Uint32
  mLocking :: bool

text \<open>A piece as its constructor leaves it (the default member initialisers).\<close>

definition new_Tetromino :: "Kind \<Rightarrow> ITetromino" where
  "new_Tetromino k =
     \<lparr>kind = k, mLeft = 0, mBottom = 0, mState = Up, mLockTicks = 0, mLocking = False\<rparr>"

abbreviation (input) LOCK_DELAY_MILLISECONDS :: Uint32 where "LOCK_DELAY_MILLISECONDS \<equiv> 500"
abbreviation (input) STATES_COUNT :: int where "STATES_COUNT \<equiv> 4"

fun tetromino_color :: "Kind \<Rightarrow> SDL_Color" where
  "tetromino_color I_Tetromino = SDL_Color 0x00 0xE6 0xE6 0xAA"
| "tetromino_color O_Tetromino = SDL_Color 0xE6 0xE6 0x00 0xAA"
| "tetromino_color T_Tetromino = SDL_Color 0xE6 0x00 0xE6 0xAA"
| "tetromino_color J_Tetromino = SDL_Color 0x00 0x72 0xFB 0xAA"
| "tetromino_color L_Tetromino = SDL_Color 0xE6 0x95 0x00 0xAA"
| "tetromino_color S_Tetromino = SDL_Color 0x00 0xE6 0x00 0xAA"
| "tetromino_color Z_Tetromino = SDL_Color 0xE6 0x00 0x00 0xAA"

fun heightOf :: "Kind \<Rightarrow> State \<Rightarrow> int" where
  "heightOf I_Tetromino st = [1, 4, 1, 4] ! State_index st"
| "heightOf O_Tetromino st = 2"
| "heightOf T_Tetromino st = [2, 3, 2, 3] ! State_index st"
| "heightOf J_Tetromino st = [2, 3, 2, 3] ! State_index st"
| "heightOf L_Tetromino st = [2, 3, 2, 3] ! State_index st"
| "heightOf S_Tetromino st = [2, 3, 2, 3] ! State_index st"
| "heightOf Z_Tetromino st = [2, 3, 2, 3] ! State_index st"

fun widthOf :: "Kind \<Rightarrow> State \<Rightarrow> int" where
  "widthOf I_Tetromino st = [4, 1, 4, 1] ! State_index st"
| "widthOf O_Tetromino st = 2"
| "widthOf T_Tetromino st = [3, 2, 3, 2] ! State_index st"
| "widthOf J_Tetromino st = [3, 2, 3, 2] ! State_index st"
| "widthOf L_Tetromino st = [3, 2, 3, 2] ! State_index st"
| "widthOf S_Tetromino st = [3, 2, 3, 2] ! State_index st"
| "widthOf Z_Tetromino st = [3, 2, 3, 2] ! State_index st"

fun shapeOf :: "Kind \<Rightarrow> State \<Rightarrow> Uint16" where
  "shapeOf I_Tetromino st = [0x000F, 0x8888, 0x000F, 0x8888] ! State_index st"
| "shapeOf O_Tetromino st = 0x00CC"
| "shapeOf T_Tetromino st = [0x004E, 0x08C8, 0x00E4, 0x04C4] ! State_index st"
| "shapeOf J_Tetromino st = [0x008E, 0x0C88, 0x00E2, 0x044C] ! State_index st"
| "shapeOf L_Tetromino st = [0x002E, 0x088C, 0x00E8, 0x0C44] ! State_index st"
| "shapeOf S_Tetromino st = [0x006C, 0x08C4, 0x006C, 0x08C4] ! State_index st"
| "shapeOf Z_Tetromino st = [0x00C6, 0x04C8, 0x00C6, 0x04C8] ! State_index st"

text \<open>
  \<open>ITetromino::split(left, bottom, state)\<close>: the loop over the 16 bits of the shape
  writes one cell for each bit that is set, from the most significant bit down. Every
  shape of the tables has exactly four bits, so the four cells of the array are exactly
  the cells written; \<open>cells_of_list\<close> pads with a zero cell what the loop would leave
  unwritten, which no shape does.
\<close>

definition split_written :: "Uint16 \<Rightarrow> int \<Rightarrow> int \<Rightarrow> Cell list" where
  "split_written shape left bottom =
     map (\<lambda>i. \<lparr>column = left + int i mod STATES_COUNT,
                row = bottom - STATES_COUNT + int i div STATES_COUNT\<rparr>)
       (filter (\<lambda>i. shape AND drop_bit i 0x8000 \<noteq> 0) [0..<16])"

definition cells_of_list :: "Cell list \<Rightarrow> Cells" where
  "cells_of_list cs =
     (case cs @ replicate 4 \<lparr>column = 0, row = 0\<rparr> of
        c0 # c1 # c2 # c3 # _ \<Rightarrow> Cells c0 c1 c2 c3)"

definition split_at :: "Kind \<Rightarrow> int \<Rightarrow> int \<Rightarrow> State \<Rightarrow> Cells" where
  "split_at k left bottom st = cells_of_list (split_written (shapeOf k st) left bottom)"

text \<open>\<open>split(left, bottom)\<close> and \<open>split()\<close>\<close>

definition split_with :: "ITetromino \<Rightarrow> int \<Rightarrow> int \<Rightarrow> Cells" where
  "split_with t left bottom = split_at (kind t) left bottom (mState t)"

definition split_cells :: "ITetromino \<Rightarrow> Cells" where
  "split_cells t = split_at (kind t) (mLeft t) (mBottom t) (mState t)"

definition width :: "ITetromino \<Rightarrow> int" where
  "width t = widthOf (kind t) (mState t)"

definition height :: "ITetromino \<Rightarrow> int" where
  "height t = heightOf (kind t) (mState t)"

definition visiable :: "ITetromino \<Rightarrow> bool" where
  "visiable t = (mBottom t > HIDDEN_ROWS)"

definition init :: "ITetromino \<Rightarrow> ITetromino" where
  "init t =
     (let t1 = t\<lparr>mState := Up, mLocking := False, mLockTicks := 0\<rparr>;
          t2 = t1\<lparr>mLeft := (CELL_COLUMNS - width t1) div 2\<rparr>
      in t2\<lparr>mBottom := height t2\<rparr>)"

definition lock :: "Uint32 \<Rightarrow> ITetromino \<Rightarrow> ITetromino" where
  "lock ticksNow t = t\<lparr>mLocking := True, mLockTicks := ticksNow\<rparr>"

definition unlock :: "Row list \<Rightarrow> Uint32 \<Rightarrow> ITetromino \<Rightarrow> ITetromino" where
  "unlock mPlayfield ticksNow t =
     (if \<not> isFilled mPlayfield (split_with t (mLeft t) (mBottom t + 1))
      then t\<lparr>mLocking := False, mLockTicks := ticksNow\<rparr>
      else t\<lparr>mLockTicks := ticksNow\<rparr>)"

text \<open>
  In the piece operations \<open>ticksNow\<close> is the value of \<open>Timer::instance().getTicks()\<close>
  at the call.

  \<open>spawn\<close>: the loop tries \<open>bottom\<close> from \<open>HIDDEN_ROWS + mBottom\<close> down to \<open>mBottom\<close>
  and takes the first position that is free.
\<close>

definition spawn :: "Row list \<Rightarrow> Uint32 \<Rightarrow> ITetromino \<Rightarrow> ITetromino" where
  "spawn mPlayfield ticksNow t0 =
     (let t1 = init t0;
          t2 = (case find (\<lambda>bottom. \<not> isFilled mPlayfield (split_with t1 (mLeft t1) bottom))
                       (rev [mBottom t1 .. HIDDEN_ROWS + mBottom t1]) of
                  None \<Rightarrow> t1
                | Some bottom \<Rightarrow> t1\<lparr>mBottom := bottom\<rparr>)
      in if isFilled mPlayfield (split_with t2 (mLeft t2) (mBottom t2 + 1))
         then lock ticksNow t2 else t2)"

definition moveLeft :: "Row list \<Rightarrow> Uint32 \<Rightarrow> ITetromino \<Rightarrow> ITetromino" where
  "moveLeft mPlayfield ticksNow t =
     (if \<not> isFilled mPlayfield (split_with t (mLeft t - 1) (mBottom t))
      then unlock mPlayfield ticksNow (t\<lparr>mLeft := mLeft t - 1\<rparr>)
      else t)"

definition moveRight :: "Row list \<Rightarrow> Uint32 \<Rightarrow> ITetromino \<Rightarrow> ITetromino" where
  "moveRight mPlayfield ticksNow t =
     (if \<not> isFilled mPlayfield (split_with t (mLeft t + 1) (mBottom t))
      then unlock mPlayfield ticksNow (t\<lparr>mLeft := mLeft t + 1\<rparr>)
      else t)"

text \<open>\<open>int ITetromino::softDrop(int rows)\<close>: the piece after the call and the result.\<close>

definition softDrop :: "Row list \<Rightarrow> Uint32 \<Rightarrow> int \<Rightarrow> ITetromino \<Rightarrow> ITetromino \<times> int" where
  "softDrop mPlayfield ticksNow rows t =
     (if mLocking t then (t, 0)
      else
        let cells = split_cells t;
            landingSpot = getLandingSpot mPlayfield cells;
            height = row (at0 landingSpot) - row (at0 cells)
        in if height \<le> rows
           then (lock ticksNow (t\<lparr>mBottom := mBottom t + height\<rparr>), height)
           else (t\<lparr>mBottom := mBottom t + rows\<rparr>, rows))"

record HardDropResult =
  cleard :: int
  dropped :: int

definition hardDrop ::
  "Row list \<Rightarrow> Uint32 \<Rightarrow> ITetromino \<Rightarrow> halt + (Row list \<times> ITetromino \<times> HardDropResult)" where
  "hardDrop mPlayfield ticksNow t =
     (case softDrop mPlayfield ticksNow CELL_ROWS t of
        (t', d) \<Rightarrow>
          (case onLanding mPlayfield (split_cells t') (tetromino_color (kind t')) of
             Inl e \<Rightarrow> Inl e
           | Inr (mPlayfield', c) \<Rightarrow> Inr (mPlayfield', t', \<lparr>cleard = c, dropped = d\<rparr>)))"

text \<open>
  \<open>ITetromino::tryRotate(offsets, attempts)\<close>. Both tables have four entries and the
  index is a \<open>State\<close>, so \<open>at()\<close> never throws here.
\<close>

fun tryAttempts ::
  "Row list \<Rightarrow> Uint32 \<Rightarrow> State \<Rightarrow> int \<Rightarrow> int \<Rightarrow> Cell list \<Rightarrow> ITetromino \<Rightarrow> ITetromino" where
  "tryAttempts mPlayfield ticksNow nxt leftBase bottomBase [] t = t"
| "tryAttempts mPlayfield ticksNow nxt leftBase bottomBase (attempt # attempts) t =
     (let left = leftBase + column attempt; bottom = bottomBase + row attempt
      in if \<not> isFilled mPlayfield (split_at (kind t) left bottom nxt)
         then unlock mPlayfield ticksNow (t\<lparr>mLeft := left, mBottom := bottom, mState := nxt\<rparr>)
         else tryAttempts mPlayfield ticksNow nxt leftBase bottomBase attempts t)"

definition tryRotate_with ::
  "Cell list \<Rightarrow> Cell list list \<Rightarrow> Row list \<Rightarrow> Uint32 \<Rightarrow> ITetromino \<Rightarrow> ITetromino" where
  "tryRotate_with offsets attempts mPlayfield ticksNow t =
     (let nxt = nextState (mState t);
          leftBase = mLeft t + column (offsets ! State_index nxt);
          bottomBase = mBottom t + row (offsets ! State_index nxt)
      in tryAttempts mPlayfield ticksNow nxt leftBase bottomBase (attempts ! State_index nxt) t)"

definition cell :: "int \<Rightarrow> int \<Rightarrow> Cell" where
  "cell c r = \<lparr>column = c, row = r\<rparr>"

definition offsets_3x3 :: "Cell list" where
  "offsets_3x3 = [cell 0 (-1), cell 1 1, cell (-1) 0, cell 0 0]"

definition attempts_3x3 :: "Cell list list" where
  "attempts_3x3 =
     [cell 0 0, cell (-1) 0, cell (-1) (-1), cell 0 2, cell (-1) 2] #
     [cell 0 0, cell (-1) 0, cell (-1) 1, cell 0 (-2), cell (-1) (-2)] #
     [cell 0 0, cell 1 0, cell 1 (-1), cell 0 2, cell 1 2] #
     [cell 0 0, cell 1 0, cell 1 1, cell 0 (-2), cell 1 (-2)] # []"

definition offsets_I :: "Cell list" where
  "offsets_I = [cell (-1) (-2), cell 2 2, cell (-2) (-1), cell 1 1]"

definition attempts_I :: "Cell list list" where
  "attempts_I =
     [cell 0 0, cell 1 0, cell (-2) 0, cell 1 (-2), cell (-2) 1] #
     [cell 0 0, cell (-2) 0, cell 1 0, cell (-2) (-1), cell 1 2] #
     [cell 0 0, cell (-1) 0, cell 2 0, cell (-1) 2, cell 2 (-1)] #
     [cell 0 0, cell 2 0, cell (-1) 0, cell 2 1, cell (-1) (-2)] # []"

text \<open>The virtual \<open>tryRotate()\<close>: the I piece, the O piece (empty body), the 3x3 pieces.\<close>

definition tryRotate :: "Row list \<Rightarrow> Uint32 \<Rightarrow> ITetromino \<Rightarrow> ITetromino" where
  "tryRotate mPlayfield ticksNow t =
     (case kind t of
        I_Tetromino \<Rightarrow> tryRotate_with offsets_I attempts_I mPlayfield ticksNow t
      | O_Tetromino \<Rightarrow> t
      | _ \<Rightarrow> tryRotate_with offsets_3x3 attempts_3x3 mPlayfield ticksNow t)"

subsection \<open>ScoreBoard\<close>

record ScoreBoard =
  mTicksPerRow :: cint
  mCurrLevel :: cint
  mCurrCleardRows :: cint
  mTotalCleardRows :: cint
  mScores :: cint

definition ScoreBoard_reset :: ScoreBoard where
  "ScoreBoard_reset =
     \<lparr>mTicksPerRow = 1000, mCurrLevel = 1, mCurrCleardRows = 0, mTotalCleardRows = 0,
      mScores = 0\<rparr>"

definition speeds :: "Uint32 list" where
  "speeds = [1000, 793, 618, 473, 355, 262, 190, 135, 94, 64, 43, 28, 18, 11, 7]"

text \<open>
  \<open>ScoreBoard::tryLevelUp\<close>. \<open>speeds.at(mCurrLevel)\<close> throws when the level, taken as
  a \<open>size_t\<close>, is not below 15; at that point the level is below 15 as an \<open>int\<close>, so
  it throws exactly for a negative level.
\<close>

definition tryLevelUp :: "ScoreBoard \<Rightarrow> halt + ScoreBoard" where
  "tryLevelUp sb =
     (if sint (mCurrLevel sb) \<ge> 15 then Inr sb
      else
        let requiredRows = mCurrLevel sb * 5
        in if sint (mCurrCleardRows sb) < sint requiredRows then Inr sb
           else if sint (mCurrLevel sb) < 0 then Inl out_of_range
           else Inr (sb\<lparr>mTicksPerRow := speeds ! nat (sint (mCurrLevel sb)),
                        mCurrCleardRows := mCurrCleardRows sb - requiredRows,
                        mCurrLevel := mCurrLevel sb + 1\<rparr>))"

text \<open>
  \<open>ScoreBoard::onClear\<close>. \<open>array<int, 4>{ 100, 300, 500, 800 }.at(rows - 1)\<close> throws
  for \<open>rows > 4\<close>, before anything is written.
\<close>

definition onClear :: "cint \<Rightarrow> ScoreBoard \<Rightarrow> halt + ScoreBoard" where
  "onClear rows sb =
     (if sint rows > 0 then
        (if sint rows - 1 \<ge> 4 then Inl out_of_range
         else tryLevelUp
                (sb\<lparr>mScores := mScores sb + [100, 300, 500, 800] ! nat (sint rows - 1) * mCurrLevel sb,
                    mTotalCleardRows := mTotalCleardRows sb + rows,
                    mCurrCleardRows := mCurrCleardRows sb + rows\<rparr>))
      else Inr sb)"

definition onSoftDrop :: "cint \<Rightarrow> ScoreBoard \<Rightarrow> ScoreBoard" where
  "onSoftDrop rows sb =
     (if sint rows > 0
      then sb\<lparr>mScores := mScores sb + (if sint rows \<le> 20 then rows else 20)\<rparr>
      else sb)"

definition onHardDrop :: "cint \<Rightarrow> ScoreBoard \<Rightarrow> ScoreBoard" where
  "onHardDrop rows sb =
     (if sint rows > 0
      then sb\<lparr>mScores := mScores sb + (if sint (rows * 2) \<le> 40 then rows * 2 else 40)\<rparr>
      else sb)"

definition speed :: "ScoreBoard \<Rightarrow> cint" where
  "speed sb = mTicksPerRow sb"

text \<open>A sequence of \<open>onClear\<close> calls; an exception ends it.\<close>

fun onClears :: "cint list \<Rightarrow> ScoreBoard \<Rightarrow> halt + ScoreBoard" where
  "onClears [] sb = Inr sb"
| "onClears (rows # rest) sb =
     (case onClear rows sb of Inl e \<Rightarrow> Inl e | Inr sb' \<Rightarrow> onClears rest sb')"

text \<open>
  The score boards the program can hold: the members are private, the constructor
  calls \<open>reset\<close>, and the four public operations are the only writers.
\<close>

inductive reachable :: "ScoreBoard \<Rightarrow> bool" where
  reachable_reset: "reachable ScoreBoard_reset"
| reachable_onClear: "reachable sb \<Longrightarrow> onClear rows sb = Inr sb' \<Longrightarrow> reachable sb'"
| reachable_onSoftDrop: "reachable sb \<Longrightarrow> reachable (onSoftDrop rows sb)"
| reachable_onHardDrop: "reachable sb \<Longrightarrow> reachable (onHardDrop rows sb)"

text \<open>
  The level-up rule in the words of the specification, on mathematical integers:
  while \<open>level < 15\<close> and \<open>linesClearedThisLevel \<ge> level * 5\<close>, subtract the
  threshold, increment the level and take \<open>ticksPerRowFall\<close> from the speed table (the
  entry of the new level, the first entry being that of level 1).
\<close>

record LevelState =
  level :: int
  linesClearedThisLevel :: int
  ticksPerRowFall :: int

function levelUp_spec :: "LevelState \<Rightarrow> LevelState" where
  "levelUp_spec s =
     (if level s < 15 \<and> linesClearedThisLevel s \<ge> level s * 5
      then levelUp_spec
             \<lparr>level = level s + 1,
              linesClearedThisLevel = linesClearedThisLevel s - level s * 5,
              ticksPerRowFall = uint (speeds ! nat (level s + 1 - 1))\<rparr>
      else s)"
  by pat_completeness auto
termination
  by (relation "measure (\<lambda>s. nat (15 - level s))") auto

declare levelUp_spec.simps [simp del]

text \<open>The level, the per-level counter and the speed of a score board, as integers.\<close>

definition LevelState_of :: "ScoreBoard \<Rightarrow> LevelState" where
  "LevelState_of sb =
     \<lparr>level = sint (mCurrLevel sb), linesClearedThisLevel = sint (mCurrCleardRows sb),
      ticksPerRowFall = sint (mTicksPerRow sb)\<rparr>"

text \<open>What every reachable score board satisfies.\<close>

definition level_inv :: "ScoreBoard \<Rightarrow> bool" where
  "level_inv sb =
     (1 \<le> sint (mCurrLevel sb) \<and> sint (mCurrLevel sb) \<le> 15
      \<and> (sint (mCurrLevel sb) < 15 \<longrightarrow>
            0 \<le> sint (mCurrCleardRows sb) \<and> sint (mCurrCleardRows sb) < sint (mCurrLevel sb) * 5))"

text \<open>
  What a sequence of \<open>onClear\<close> calls adds to \<open>mScores\<close> and to \<open>mTotalCleardRows\<close>
  when the additions are done on unbounded integers: at each call the entry of
  \<open>{ 100, 300, 500, 800 }\<close> times the level the score board has at that call, and the
  rows of the call.
\<close>

fun exact_points :: "cint list \<Rightarrow> ScoreBoard \<Rightarrow> int" where
  "exact_points [] sb = 0"
| "exact_points (rows # rest) sb =
     (if sint rows > 0
      then [100, 300, 500, 800] ! nat (sint rows - 1) * sint (mCurrLevel sb) else 0)
     + (case onClear rows sb of Inl e \<Rightarrow> 0 | Inr sb' \<Rightarrow> exact_points rest sb')"

definition exact_lines :: "cint list \<Rightarrow> int" where
  "exact_lines ns = sum_list (map sint ns)"

subsection \<open>Timer\<close>

text \<open>
  \<open>SDL_GetTicks()\<close> is the input \<open>wall\<close>: the wall-clock milliseconds at the call, a
  \<open>Uint32\<close> that wraps.
\<close>

record Timer =
  mMark :: Uint32
  mLastTicks :: Uint32
  mFrameTicks :: Uint32
  mPauseStart :: Uint32
  mPausedTicks :: Uint32
  mHasPaused :: bool

definition getTicks :: "Timer \<Rightarrow> Uint32 \<Rightarrow> Uint32" where
  "getTicks tm wall = (if mHasPaused tm then mPauseStart tm else wall) - mPausedTicks tm"

definition frameTicks :: "Timer \<Rightarrow> Uint32" where
  "frameTicks tm = mFrameTicks tm"

definition pause :: "Uint32 \<Rightarrow> Timer \<Rightarrow> Timer" where
  "pause wall tm = (if \<not> mHasPaused tm then tm\<lparr>mHasPaused := True, mPauseStart := wall\<rparr> else tm)"

definition resume :: "Uint32 \<Rightarrow> Timer \<Rightarrow> Timer" where
  "resume wall tm =
     (if mHasPaused tm
      then tm\<lparr>mHasPaused := False, mPausedTicks := mPausedTicks tm + (wall - mPauseStart tm)\<rparr>
      else tm)"

text \<open>
  \<open>Timer::tick\<close> reads the wall clock before the delay (only to size the delay), in
  \<open>getTicks()\<close> after it, and once more for \<open>mMark\<close>.
\<close>

definition tick :: "Uint32 \<Rightarrow> Uint32 \<Rightarrow> Timer \<Rightarrow> Timer" where
  "tick wall_ticks wall_mark tm =
     (let currTicks = getTicks tm wall_ticks
      in tm\<lparr>mFrameTicks := currTicks - mLastTicks tm, mLastTicks := currTicks, mMark := wall_mark\<rparr>)"

subsection \<open>The game: controller and state manager\<close>

text \<open>
  \<open>enum class ID\<close> without \<open>None\<close>; a \<open>shared_ptr<GameState>\<close> is an \<open>ID option\<close>,
  the null pointer being \<open>None\<close>, which is also what \<open>lastStateID()\<close> answers for it.
  The state classes have no members.
\<close>

datatype ID = Playing | Paused | GameOver | BeforeExit

datatype SDL_Keycode =
  SDLK_UP | SDLK_c | SDLK_DOWN | SDLK_LEFT | SDLK_RIGHT | SDLK_SPACE | SDLK_ESCAPE | SDLK_RETURN
  | SDLK_other

text \<open>
  An event: a key press with its \<open>repeat\<close> flag, the quit request, anything else.
\<close>

datatype SDL_Event = SDL_KEYDOWN SDL_Keycode bool | SDL_QUIT | SDL_other

record TetrominoController =
  mActive :: ITetromino
  mHeld :: "ITetromino option"
  mNextPieces :: "ITetromino list"
  mTetrominoCreators :: "Kind list"
  mIndex :: nat
  mUpdateTicks :: Uint32
  mHasHeld :: bool

record GameStateManager =
  mLastState :: "ID option"
  mCurrState :: "ID option"

text \<open>
  \<open>random_shuffle\<close> draws from \<open>rand()\<close>, which is outside the source: it is a
  parameter that maps the hidden state of \<open>rand()\<close> and the seven creators to a
  permutation of them and the next hidden state.
\<close>

type_synonym shuffle = "nat \<Rightarrow> Kind list \<Rightarrow> Kind list \<times> nat"

record Game =
  playfield :: "Row list"
  scoreBoard :: ScoreBoard
  timer :: Timer
  controller :: TetrominoController
  manager :: GameStateManager
  rand :: nat

definition make :: "shuffle \<Rightarrow> Game \<Rightarrow> ITetromino \<times> Game" where
  "make random_shuffle g =
     (let c = controller g;
          g1 = (if mIndex c \<ge> length (mTetrominoCreators c)
                then (case random_shuffle (rand g) (mTetrominoCreators c) of
                        (creators, rand') \<Rightarrow>
                          g\<lparr>controller := c\<lparr>mTetrominoCreators := creators, mIndex := 0\<rparr>,
                            rand := rand'\<rparr>)
                else g);
          c1 = controller g1
      in (new_Tetromino (mTetrominoCreators c1 ! mIndex c1),
          g1\<lparr>controller := c1\<lparr>mIndex := mIndex c1 + 1\<rparr>\<rparr>))"

text \<open>\<open>TetrominoController::next\<close>; \<open>front()\<close> of an empty list is undefined in C++.\<close>

definition next_piece :: "shuffle \<Rightarrow> Uint32 \<Rightarrow> Game \<Rightarrow> halt + (ITetromino \<times> Game)" where
  "next_piece random_shuffle wall g =
     (case mNextPieces (controller g) of
        [] \<Rightarrow> Inl front_of_empty
      | front # rest \<Rightarrow>
          (let nxt = spawn (playfield g) (getTicks (timer g) wall) front;
               g1 = g\<lparr>controller := (controller g)\<lparr>mNextPieces := rest\<rparr>\<rparr>
           in case make random_shuffle g1 of
                (made, g2) \<Rightarrow>
                  Inr (nxt, g2\<lparr>controller := (controller g2)
                                  \<lparr>mNextPieces := mNextPieces (controller g2) @ [made],
                                   mHasHeld := False\<rparr>\<rparr>)))"

definition TetrominoController_reset :: "shuffle \<Rightarrow> Uint32 \<Rightarrow> Game \<Rightarrow> Game" where
  "TetrominoController_reset random_shuffle wall g =
     (let g0 = g\<lparr>controller := (controller g)\<lparr>mIndex := length (mTetrominoCreators (controller g))\<rparr>\<rparr>
      in case make random_shuffle g0 of
           (active, g1) \<Rightarrow>
      let g2 = g1\<lparr>controller := (controller g1)
                   \<lparr>mActive := spawn (playfield g1) (getTicks (timer g1) wall) active,
                    mHeld := None, mNextPieces := []\<rparr>\<rparr>
      in case make random_shuffle g2 of
           (n1, g3) \<Rightarrow>
      case make random_shuffle
             (g3\<lparr>controller := (controller g3)\<lparr>mNextPieces := mNextPieces (controller g3) @ [n1]\<rparr>\<rparr>) of
           (n2, g4) \<Rightarrow>
      case make random_shuffle
             (g4\<lparr>controller := (controller g4)\<lparr>mNextPieces := mNextPieces (controller g4) @ [n2]\<rparr>\<rparr>) of
           (n3, g5) \<Rightarrow>
      g5\<lparr>controller := (controller g5)
            \<lparr>mNextPieces := mNextPieces (controller g5) @ [n3], mUpdateTicks := 0,
             mHasHeld := False\<rparr>\<rparr>)"

definition Game_reset :: "shuffle \<Rightarrow> Uint32 \<Rightarrow> Game \<Rightarrow> Game" where
  "Game_reset random_shuffle wall g =
     TetrominoController_reset random_shuffle wall
       (g\<lparr>playfield := Playfield_reset (playfield g), scoreBoard := ScoreBoard_reset\<rparr>)"

text \<open>
  The hooks of the four states. \<open>PauseState::onEnter\<close> pauses the timer;
  \<open>PauseState::onExit\<close> resumes it when the next state is \<open>Playing\<close>;
  \<open>GameOver::onExit\<close> resets the game when the next state is \<open>Playing\<close>; the others
  only set the window title.
\<close>

definition onExit :: "shuffle \<Rightarrow> Uint32 \<Rightarrow> ID \<Rightarrow> ID \<Rightarrow> Game \<Rightarrow> Game" where
  "onExit random_shuffle wall this nextStateID g =
     (case this of
        Paused \<Rightarrow> if nextStateID = Playing then g\<lparr>timer := resume wall (timer g)\<rparr> else g
      | GameOver \<Rightarrow> if nextStateID = Playing then Game_reset random_shuffle wall g else g
      | _ \<Rightarrow> g)"

definition onEnter :: "Uint32 \<Rightarrow> ID \<Rightarrow> Game \<Rightarrow> Game" where
  "onEnter wall this g =
     (case this of
        Paused \<Rightarrow> g\<lparr>timer := pause wall (timer g)\<rparr>
      | _ \<Rightarrow> g)"

definition changeState :: "shuffle \<Rightarrow> Uint32 \<Rightarrow> ID \<Rightarrow> Game \<Rightarrow> Game" where
  "changeState random_shuffle wall state g =
     (let g1 = (case mCurrState (manager g) of
                  None \<Rightarrow> g
                | Some currState \<Rightarrow> onExit random_shuffle wall currState state g);
          g2 = g1\<lparr>manager := \<lparr>mLastState = mCurrState (manager g1), mCurrState = Some state\<rparr>\<rparr>
      in onEnter wall state g2)"

definition goBack :: "shuffle \<Rightarrow> Uint32 \<Rightarrow> Game \<Rightarrow> Game" where
  "goBack random_shuffle wall g =
     (case (mCurrState (manager g), mLastState (manager g)) of
        (Some currState, Some lastState) \<Rightarrow>
          (let g1 = onExit random_shuffle wall currState lastState g;
               g2 = onEnter wall lastState g1
           in g2\<lparr>manager := \<lparr>mLastState = mCurrState (manager g2),
                              mCurrState = mLastState (manager g2)\<rparr>\<rparr>)
      | _ \<Rightarrow> g)"

text \<open>
  \<open>TetrominoController::land\<close>. The \<open>int\<close> results of the hard drop are handed to the
  score board, whose counters are words.
\<close>

definition land :: "shuffle \<Rightarrow> Uint32 \<Rightarrow> Game \<Rightarrow> halt + Game" where
  "land random_shuffle wall g =
     (case hardDrop (playfield g) (getTicks (timer g) wall) (mActive (controller g)) of
        Inl e \<Rightarrow> Inl e
      | Inr (mPlayfield', active', r) \<Rightarrow>
          (let g1 = g\<lparr>playfield := mPlayfield', controller := (controller g)\<lparr>mActive := active'\<rparr>\<rparr>
           in if \<not> visiable active' then Inr (changeState random_shuffle wall GameOver g1)
              else
                (case onClear (word_of_int (cleard r)) (scoreBoard g1) of
                   Inl e \<Rightarrow> Inl e
                 | Inr sb1 \<Rightarrow>
                     (case next_piece random_shuffle wall
                             (g1\<lparr>scoreBoard := onHardDrop (word_of_int (dropped r)) sb1\<rparr>) of
                        Inl e \<Rightarrow> Inl e
                      | Inr (nxt, g2) \<Rightarrow>
                          (let g3 = g2\<lparr>controller := (controller g2)\<lparr>mActive := nxt\<rparr>\<rparr>
                           in if isFilled (playfield g3) (split_cells nxt)
                              then Inr (changeState random_shuffle wall GameOver g3)
                              else Inr g3)))))"

text \<open>
  \<open>TetrominoController::hold\<close>: after the swap the active pointer is the old held one
  (null the first time, then \<open>next()\<close> supplies the piece), and the held one is the old
  active piece.
\<close>

definition hold :: "shuffle \<Rightarrow> Uint32 \<Rightarrow> Game \<Rightarrow> halt + Game" where
  "hold random_shuffle wall g =
     (if \<not> mHasHeld (controller g) then
        (let held' = init (mActive (controller g))
         in case mHeld (controller g) of
              Some active' \<Rightarrow>
                Inr (g\<lparr>controller := (controller g)
                         \<lparr>mActive := spawn (playfield g) (getTicks (timer g) wall) active',
                          mHeld := Some held', mHasHeld := True\<rparr>\<rparr>)
            | None \<Rightarrow>
                (case next_piece random_shuffle wall g of
                   Inl e \<Rightarrow> Inl e
                 | Inr (nxt, g1) \<Rightarrow>
                     Inr (g1\<lparr>controller := (controller g1)
                               \<lparr>mActive := spawn (playfield g1) (getTicks (timer g1) wall) nxt,
                                mHeld := Some held', mHasHeld := True\<rparr>\<rparr>)))
      else Inr g)"

definition onKeyDown :: "shuffle \<Rightarrow> Uint32 \<Rightarrow> SDL_Keycode \<Rightarrow> bool \<Rightarrow> Game \<Rightarrow> halt + Game" where
  "onKeyDown random_shuffle wall key repeat g =
     (let c = controller g; mPlayfield = playfield g; ticksNow = getTicks (timer g) wall
      in case key of
           SDLK_UP \<Rightarrow>
             if \<not> repeat
             then Inr (g\<lparr>controller := c\<lparr>mActive := tryRotate mPlayfield ticksNow (mActive c)\<rparr>\<rparr>)
             else Inr g
         | SDLK_c \<Rightarrow> if \<not> repeat then hold random_shuffle wall g else Inr g
         | SDLK_DOWN \<Rightarrow>
             (case softDrop mPlayfield ticksNow 1 (mActive c) of
                (active', rows) \<Rightarrow>
                  Inr (g\<lparr>controller := c\<lparr>mActive := active'\<rparr>,
                         scoreBoard := onSoftDrop (word_of_int rows) (scoreBoard g)\<rparr>))
         | SDLK_LEFT \<Rightarrow> Inr (g\<lparr>controller := c\<lparr>mActive := moveLeft mPlayfield ticksNow (mActive c)\<rparr>\<rparr>)
         | SDLK_RIGHT \<Rightarrow> Inr (g\<lparr>controller := c\<lparr>mActive := moveRight mPlayfield ticksNow (mActive c)\<rparr>\<rparr>)
         | SDLK_SPACE \<Rightarrow> land random_shuffle wall g
         | _ \<Rightarrow> Inr g)"

text \<open>
  \<open>TetrominoController::update\<close>. \<open>mUpdateTicks / speed()\<close> and \<open>%=\<close> are unsigned
  (the \<open>int\<close> speed is converted to \<open>Uint32\<close>); the \<open>Uint32\<close> row count becomes the
  \<open>int\<close> argument of \<open>softDrop\<close>, whose result is dropped.
\<close>

definition TetrominoController_update :: "shuffle \<Rightarrow> Uint32 \<Rightarrow> Game \<Rightarrow> halt + Game" where
  "TetrominoController_update random_shuffle wall g =
     (if mLocking (mActive (controller g))
         \<and> getTicks (timer g) wall - mLockTicks (mActive (controller g)) \<ge> LOCK_DELAY_MILLISECONDS
      then (case land random_shuffle wall g of
              Inl e \<Rightarrow> Inl e
            | Inr g' \<Rightarrow> Inr (g'\<lparr>controller := (controller g')\<lparr>mUpdateTicks := 0\<rparr>\<rparr>))
      else
        let c = controller g;
            ticks = mUpdateTicks c + frameTicks (timer g)
        in if speed (scoreBoard g) = 0 then Inl division_by_zero
           else
             let rows = ticks div speed (scoreBoard g)
             in if rows > 0
                then Inr (g\<lparr>controller := c
                            \<lparr>mUpdateTicks := ticks mod speed (scoreBoard g),
                             mActive := fst (softDrop (playfield g) (getTicks (timer g) wall)
                                               (sint rows) (mActive c))\<rparr>\<rparr>)
                else Inr (g\<lparr>controller := c\<lparr>mUpdateTicks := ticks\<rparr>\<rparr>))"

text \<open>The \<open>handleEvent\<close> of the four states, and the \<open>update\<close> of the current state.\<close>

definition PlayState_handleEvent :: "shuffle \<Rightarrow> Uint32 \<Rightarrow> SDL_Event \<Rightarrow> Game \<Rightarrow> halt + Game" where
  "PlayState_handleEvent random_shuffle wall e g =
     (case e of
        SDL_KEYDOWN key repeat \<Rightarrow>
          if key = SDLK_ESCAPE then Inr (changeState random_shuffle wall Paused g)
          else onKeyDown random_shuffle wall key repeat g
      | _ \<Rightarrow> Inr g)"

definition PauseState_handleEvent :: "shuffle \<Rightarrow> Uint32 \<Rightarrow> SDL_Event \<Rightarrow> Game \<Rightarrow> halt + Game" where
  "PauseState_handleEvent random_shuffle wall e g =
     (case e of
        SDL_KEYDOWN key repeat \<Rightarrow>
          if key = SDLK_RETURN then Inr (changeState random_shuffle wall Playing g) else Inr g
      | _ \<Rightarrow> Inr g)"

definition GameOver_handleEvent :: "shuffle \<Rightarrow> Uint32 \<Rightarrow> SDL_Event \<Rightarrow> Game \<Rightarrow> halt + Game" where
  "GameOver_handleEvent random_shuffle wall e g =
     (case e of
        SDL_KEYDOWN key repeat \<Rightarrow>
          if key = SDLK_RETURN then Inr (changeState random_shuffle wall Playing g) else Inr g
      | _ \<Rightarrow> Inr g)"

text \<open>\<open>BeforeExit::handleEvent\<close>: Escape calls \<open>exit(EXIT_SUCCESS)\<close>, Return goes back.\<close>

definition BeforeExit_handleEvent :: "shuffle \<Rightarrow> Uint32 \<Rightarrow> SDL_Event \<Rightarrow> Game \<Rightarrow> halt + Game" where
  "BeforeExit_handleEvent random_shuffle wall e g =
     (case e of
        SDL_KEYDOWN key repeat \<Rightarrow>
          if key = SDLK_ESCAPE then Inl exit_success
          else if key = SDLK_RETURN then Inr (goBack random_shuffle wall g)
          else Inr g
      | _ \<Rightarrow> Inr g)"

definition handleEvent :: "shuffle \<Rightarrow> Uint32 \<Rightarrow> ID \<Rightarrow> SDL_Event \<Rightarrow> Game \<Rightarrow> halt + Game" where
  "handleEvent random_shuffle wall this e g =
     (case this of
        Playing \<Rightarrow> PlayState_handleEvent random_shuffle wall e g
      | Paused \<Rightarrow> PauseState_handleEvent random_shuffle wall e g
      | GameOver \<Rightarrow> GameOver_handleEvent random_shuffle wall e g
      | BeforeExit \<Rightarrow> BeforeExit_handleEvent random_shuffle wall e g)"

text \<open>
  \<open>GameStateManager::handleEvents\<close> on the events that \<open>SDL_PollEvent\<close> delivers in
  one frame. The manager always has a current state once \<open>main\<close> has made its first
  \<open>changeState\<close>; with none the model leaves the game alone.
\<close>

fun handleEvents :: "shuffle \<Rightarrow> Uint32 \<Rightarrow> SDL_Event list \<Rightarrow> Game \<Rightarrow> halt + Game" where
  "handleEvents random_shuffle wall [] g = Inr g"
| "handleEvents random_shuffle wall (e # es) g =
     (case mCurrState (manager g) of
        None \<Rightarrow> Inr g
      | Some currState \<Rightarrow>
          if e = SDL_QUIT \<and> currState \<noteq> BeforeExit
          then handleEvents random_shuffle wall es (changeState random_shuffle wall BeforeExit g)
          else (case handleEvent random_shuffle wall currState e g of
                  Inl h \<Rightarrow> Inl h
                | Inr g' \<Rightarrow> handleEvents random_shuffle wall es g'))"

definition GameStateManager_update :: "shuffle \<Rightarrow> Uint32 \<Rightarrow> Game \<Rightarrow> halt + Game" where
  "GameStateManager_update random_shuffle wall g =
     (case mCurrState (manager g) of
        Some Playing \<Rightarrow> TetrominoController_update random_shuffle wall g
      | _ \<Rightarrow> Inr g)"

subsection \<open>Runs of the controller\<close>




text \<open>
  What a run that never lands the piece leaves alone: the board, the score board, the
  states, the timer, the queue and the held piece, and which piece is active.
\<close>

definition undisturbed :: "Game \<Rightarrow> Game \<Rightarrow> bool" where
  "undisturbed g g' =
     (playfield g' = playfield g \<and> scoreBoard g' = scoreBoard g \<and> manager g' = manager g
      \<and> timer g' = timer g \<and> rand g' = rand g
      \<and> mNextPieces (controller g') = mNextPieces (controller g)
      \<and> mHeld (controller g') = mHeld (controller g)
      \<and> kind (mActive (controller g')) = kind (mActive (controller g)))"

subsection \<open>Concrete boards and pieces for the examples\<close>

definition filledBlock :: "SDL_Color \<Rightarrow> Block" where
  "filledBlock clr = \<lparr>color = clr, filled = True\<rparr>"

definition grey :: SDL_Color where
  "grey = SDL_Color 0x55 0x55 0x55 0xFF"

text \<open>
  A board whose bottom row lacks its four left blocks and whose row 20 has one block;
  the four cells that complete the bottom row; the board with those cells marked; the
  board after the full row is gone.
\<close>

definition board_C2 :: "Row list" where
  "board_C2 = replicate 20 Row_init
               @ [Row_init[0 := filledBlock grey],
                  replicate 4 (hd Row_init) @ replicate 6 (filledBlock grey)]"

definition cells_C2 :: Cells where
  "cells_C2 = Cells (cell 0 21) (cell 1 21) (cell 2 21) (cell 3 21)"

definition marked_C2 :: "Row list" where
  "marked_C2 = replicate 20 Row_init
               @ [Row_init[0 := filledBlock grey],
                  replicate 4 (filledBlock (tetromino_color I_Tetromino))
                    @ replicate 6 (filledBlock grey)]"

definition landed_C2 :: "Row list" where
  "landed_C2 = replicate 21 Row_init @ [Row_init[0 := filledBlock grey]]"

text \<open>
  A T piece as \<open>spawn\<close> puts it on the empty board, and a T piece resting on the
  floor of the empty board with its lock timer running.
\<close>

definition piece_T_free :: ITetromino where
  "piece_T_free =
     \<lparr>kind = T_Tetromino, mLeft = 3, mBottom = 4, mState = Up, mLockTicks = 0, mLocking = False\<rparr>"

definition piece_T_resting :: ITetromino where
  "piece_T_resting =
     \<lparr>kind = T_Tetromino, mLeft = 3, mBottom = 22, mState = Up, mLockTicks = 7, mLocking = True\<rparr>"

text \<open>
  A shuffle that leaves the order alone, and a paused game on the empty board as
  \<open>Game::reset\<close> leaves it with that shuffle: an I piece active, O, T and J waiting.
\<close>

definition no_shuffle :: shuffle where
  "no_shuffle seed creators = (creators, seed)"

definition timer_running :: Timer where
  "timer_running =
     \<lparr>mMark = 0, mLastTicks = 0, mFrameTicks = 16, mPauseStart = 0, mPausedTicks = 0,
      mHasPaused = False\<rparr>"

definition game_start :: Game where
  "game_start =
     \<lparr>playfield = Playfield_reset [],
      scoreBoard = ScoreBoard_reset,
      timer = timer_running\<lparr>mHasPaused := True\<rparr>,
      controller =
        \<lparr>mActive = \<lparr>kind = I_Tetromino, mLeft = 3, mBottom = 3, mState = Up, mLockTicks = 0,
                     mLocking = False\<rparr>,
         mHeld = None,
         mNextPieces = [new_Tetromino O_Tetromino, new_Tetromino T_Tetromino,
                        new_Tetromino J_Tetromino],
         mTetrominoCreators = [I_Tetromino, O_Tetromino, T_Tetromino, J_Tetromino, L_Tetromino,
                               S_Tetromino, Z_Tetromino],
         mIndex = 4, mUpdateTicks = 0, mHasHeld = False\<rparr>,
      manager = \<lparr>mLastState = None, mCurrState = Some Paused\<rparr>,
      rand = 0\<rparr>"

text \<open>The same game at the exit prompt, and in play with the resting T piece active.\<close>

definition game_exit_prompt :: Game where
  "game_exit_prompt = game_start\<lparr>manager := \<lparr>mLastState = Some Paused, mCurrState = Some BeforeExit\<rparr>\<rparr>"


text \<open>The score board after \<open>onClear(4)\<close> on a fresh one.\<close>

definition scoreBoard_4_lines :: ScoreBoard where
  "scoreBoard_4_lines =
     \<lparr>mTicksPerRow = 1000, mCurrLevel = 1, mCurrCleardRows = 4, mTotalCleardRows = 4, mScores = 800\<rparr>"











section \<open>Properties\<close>

subsection \<open>Landing spot and shifted cells\<close>

lemma shiftRows_0 [simp]: "shiftRows 0 cells = cells"
  by (cases cells) (simp add: shiftRows_def)

lemma shiftRows_add: "shiftRows a (shiftRows b cells) = shiftRows (a + b) cells"
  by (cases cells) (simp add: shiftRows_def add.assoc add.commute)

lemma at0_shiftRows [simp]: "row (at0 (shiftRows d cells)) = row (at0 cells) + d"
  by (cases cells) (simp add: shiftRows_def)

lemma getLandingSpot_step:
  "getLandingSpot pf cells = (if blockedBelow pf cells then cells else getLandingSpot pf (shiftRows 1 cells))"
  by (subst getLandingSpot.simps) (simp add: shiftRows_def)

lemma blockedBelow_low:
  "\<not> blockedBelow pf cells \<Longrightarrow> -1 \<le> row (at0 cells) \<and> row (at0 cells) \<le> 20"
  by (cases cells) (auto simp: blockedBelow_def isFilled_at_def)

lemma getLandingSpot_char:
  "\<exists>d. 0 \<le> d \<and> (d = 0 \<or> (-1 \<le> row (at0 cells) \<and> row (at0 cells) + d \<le> 21))
     \<and> getLandingSpot pf cells = shiftRows d cells
     \<and> blockedBelow pf (shiftRows d cells)
     \<and> (\<forall>k. 0 \<le> k \<and> k < d \<longrightarrow> \<not> blockedBelow pf (shiftRows k cells))"
proof (induction pf cells rule: getLandingSpot.induct)
  case (1 pf cells)
  show ?case
  proof (cases "blockedBelow pf cells")
    case True
    then have "getLandingSpot pf cells = shiftRows 0 cells"
      by (subst getLandingSpot_step) simp
    with True show ?thesis
      by (intro exI[of _ 0]) auto
  next
    case False
    from "1.IH"[OF False] obtain d where d: "0 \<le> d"
      "d = 0 \<or> (-1 \<le> row (at0 (shiftRows 1 cells)) \<and> row (at0 (shiftRows 1 cells)) + d \<le> 21)"
      "getLandingSpot pf (shiftRows 1 cells) = shiftRows d (shiftRows 1 cells)"
      "blockedBelow pf (shiftRows d (shiftRows 1 cells))"
      "\<forall>k. 0 \<le> k \<and> k < d \<longrightarrow> \<not> blockedBelow pf (shiftRows k (shiftRows 1 cells))"
      unfolding shiftRows_def by blast
    have low: "-1 \<le> row (at0 cells) \<and> row (at0 cells) \<le> 20"
      using blockedBelow_low[OF False] .
    have eq: "getLandingSpot pf cells = shiftRows (d + 1) cells"
      using False d(3) by (subst getLandingSpot_step) (simp add: shiftRows_add)
    have fin: "blockedBelow pf (shiftRows (d + 1) cells)"
      using d(4) by (simp add: shiftRows_add)
    have before: "\<not> blockedBelow pf (shiftRows k cells)" if "0 \<le> k" "k < d + 1" for k
    proof (cases "k = 0")
      case True
      with False show ?thesis by simp
    next
      case False
      with that have "0 \<le> k - 1 \<and> k - 1 < d" by simp
      with d(5) have "\<not> blockedBelow pf (shiftRows (k - 1) (shiftRows 1 cells))" by blast
      then show ?thesis by (simp add: shiftRows_add)
    qed
    have bound: "row (at0 cells) + (d + 1) \<le> 21"
      using d(2) low by auto
    show ?thesis
      using d(1) low bound eq fin before by (intro exI[of _ "d + 1"]) auto
  qed
qed

lemma shape_bits: "length (filter (\<lambda>i. shapeOf k st AND drop_bit i 0x8000 \<noteq> 0) [0..<16]) = 4"
  by (cases k; cases st; hypsubst_thin; code_simp)

lemma cells_of_list_map:
  "length cs = 4 \<Longrightarrow> cells_of_list (map f cs) = map_cells f (cells_of_list cs)"
  by (cases cs rule: list.exhaust; simp add: cells_of_list_def; 
      rename_tac a as; case_tac as; simp; rename_tac b bs; case_tac bs; simp;
      rename_tac c cs'; case_tac cs'; simp)

lemma split_written_length: "length (split_written (shapeOf k st) left bottom) = 4"
  by (simp add: split_written_def shape_bits)

lemma split_written_shift:
  "split_written shape left (bottom + d) = map (\<lambda>c. c\<lparr>row := row c + d\<rparr>) (split_written shape left bottom)"
  by (simp add: split_written_def)

lemma split_at_shift: "split_at k left (bottom + d) st = shiftRows d (split_at k left bottom st)"
  by (simp add: split_at_def split_written_shift cells_of_list_map split_written_length shiftRows_def)

subsection \<open>Settling cells and clearing rows\<close>

lemma Playfield_shape_update:
  assumes "Playfield_shape pf" "r < 22" "c < 10"
  shows "Playfield_shape (pf[r := (pf ! r)[c := b]])"
  using assms by (auto simp: Playfield_shape_def list_all_iff dest!: set_update_subset_insert[THEN subsetD])

lemma fillCells_marks:
  assumes "Playfield_shape pf" "list_all inGrid cs"
  shows "\<exists>marked. fillCells cs clr pf = Inr marked \<and> Playfield_shape marked
           \<and> (\<forall>r<22. \<forall>c<10. marked ! r ! c =
                 (if \<lparr>column = int c, row = int r\<rparr> \<in> set cs then \<lparr>color = clr, filled = True\<rparr>
                  else pf ! r ! c))"
  using assms
proof (induction cs arbitrary: pf)
  case Nil
  then show ?case by simp
next
  case (Cons x cs)
  let ?r = "nat (row x)" and ?c = "nat (column x)"
  let ?pf' = "pf[?r := (pf ! ?r)[?c := \<lparr>color = clr, filled = True\<rparr>]]"
  from Cons.prems have x: "0 \<le> row x" "row x < 22" "0 \<le> column x" "column x < 10" and cs: "list_all inGrid cs"
    by (simp_all add: inGrid_def[abs_def])
  have len: "length pf = 22" and lenr: "length (pf ! ?r) = 10"
    using Cons.prems(1) x by (auto simp: Playfield_shape_def list_all_length)
  have shape': "Playfield_shape ?pf'"
    using Cons.prems(1) x by (intro Playfield_shape_update) auto
  from Cons.IH[OF shape' cs] obtain marked where m: "fillCells cs clr ?pf' = Inr marked"
    "Playfield_shape marked"
    "\<forall>r<22. \<forall>c<10. marked ! r ! c =
        (if \<lparr>column = int c, row = int r\<rparr> \<in> set cs then \<lparr>color = clr, filled = True\<rparr> else ?pf' ! r ! c)"
    by blast
  have step: "fillCells (x # cs) clr pf = Inr marked"
    using x len lenr m(1) by simp
  have xeq: "x = \<lparr>column = int c, row = int r\<rparr> \<longleftrightarrow> (r = ?r \<and> c = ?c)" for r c
    using x by (cases x) auto
  have upd: "?pf' ! r ! c = (if r = ?r \<and> c = ?c then \<lparr>color = clr, filled = True\<rparr> else pf ! r ! c)"
    if "r < 22" "c < 10" for r c
  proof (cases "r = ?r")
    case True
    then show ?thesis using that len lenr by (simp add: nth_list_update)
  next
    case False
    then show ?thesis using that len by (simp add: nth_list_update)
  qed
  have "marked ! r ! c =
          (if \<lparr>column = int c, row = int r\<rparr> \<in> set (x # cs) then \<lparr>color = clr, filled = True\<rparr> else pf ! r ! c)"
    if "r < 22" "c < 10" for r c
    using m(3) that upd[OF that] xeq[of c r] by auto
  with step m(2) show ?case by blast
qed

lemma eraseFilledRows_filter:
  "eraseFilledRows rows n =
     (filter (\<lambda>r. \<not> list_all filled r) rows, n + int (length (filter (list_all filled) rows)))"
  by (induction rows arbitrary: n) auto

lemma emplace_replicate: "((#) x ^^ n) xs = replicate n x @ xs"
  by (induction n) auto

lemma filter_nth_kept:
  assumes "i < length xs" "P (xs ! i)"
  shows "filter P xs ! length (filter P (take i xs)) = xs ! i"
proof -
  have "xs = take i xs @ xs ! i # drop (Suc i) xs"
    using assms(1) by (simp add: id_take_nth_drop)
  then have "filter P xs = filter P (take i xs) @ xs ! i # filter P (drop (Suc i) xs)"
    using assms(2) by (metis filter.simps(2) filter_append)
  then show ?thesis by (simp add: nth_append)
qed

lemma count_split:
  assumes "i < length xs" "\<not> Q (xs ! i)"
  shows "length (filter Q xs) + length (filter (\<lambda>x. \<not> Q x) (take i xs))
           = i + length (filter Q (drop (Suc i) xs))"
proof -
  have "xs = take i xs @ xs ! i # drop (Suc i) xs"
    using assms(1) by (simp add: id_take_nth_drop)
  then have "filter Q xs = filter Q (take i xs) @ filter Q (drop (Suc i) xs)"
    using assms(2) by (metis filter.simps(2) filter_append)
  moreover have "length (filter Q (take i xs)) + length (filter (\<lambda>x. \<not> Q x) (take i xs)) = i"
    using assms(1) sum_length_filter_compl[of Q "take i xs"] by simp
  ultimately show ?thesis by simp
qed

lemma onLanding_result:
  assumes "fillCells (cells_list cells) clr pf = Inr marked"
  shows "onLanding pf cells clr =
           Inr (replicate (length (filter (list_all filled) marked)) Row_init
                  @ filter (\<lambda>r. \<not> list_all filled r) marked,
                int (length (filter (list_all filled) marked)))"
  using assms by (simp add: onLanding_def eraseFilledRows_filter emplace_replicate)

lemma Row_init_shape: "length Row_init = 10"
  by (simp add: Row_init_def)

lemma result_shape:
  assumes "Playfield_shape marked"
  shows "Playfield_shape (replicate (length (filter (list_all filled) marked)) Row_init
                  @ filter (\<lambda>r. \<not> list_all filled r) marked)"
proof -
  have "length (filter (list_all filled) marked) + length (filter (\<lambda>r. \<not> list_all filled r) marked) = 22"
    using assms sum_length_filter_compl[of "list_all filled" marked] by (simp add: Playfield_shape_def)
  then show ?thesis
    using assms by (auto simp: Playfield_shape_def list_all_iff Row_init_shape)
qed

lemma survivors_shift:
  assumes "i < length marked" "\<not> list_all filled (marked ! i)"
  shows "(replicate (length (filter (list_all filled) marked)) Row_init
            @ filter (\<lambda>r. \<not> list_all filled r) marked)
           ! (i + length (filter (list_all filled) (drop (Suc i) marked))) = marked ! i"
proof -
  let ?k = "length (filter (list_all filled) marked)"
  let ?kept = "filter (\<lambda>r. \<not> list_all filled r) marked"
  have idx: "i + length (filter (list_all filled) (drop (Suc i) marked))
               = ?k + length (filter (\<lambda>r. \<not> list_all filled r) (take i marked))"
    using count_split[OF assms(1), of "list_all filled"] assms(2) by simp
  have "(replicate ?k Row_init @ ?kept) ! (?k + length (filter (\<lambda>r. \<not> list_all filled r) (take i marked)))
          = ?kept ! length (filter (\<lambda>r. \<not> list_all filled r) (take i marked))"
    by (simp add: nth_append)
  also have "\<dots> = marked ! i"
    using filter_nth_kept[OF assms(1), of "\<lambda>r. \<not> list_all filled r"] assms(2) by simp
  finally show ?thesis using idx by simp
qed

subsection \<open>Collision query\<close>

text \<open>
  C1 (as amended). \<open>Playfield::isFilled\<close> answers true exactly when some cell of the set
  has a column below 0 or at least 10, a row at least 22, a row below 0, or lies in
  the grid on a filled block of the board. The source tests \<open>row < 0\<close> first, so a cell
  above row 0 is blocking by itself.
\<close>

theorem C1_isFilled_cells:
  "isFilled mPlayfield cells \<longleftrightarrow>
     (\<exists>c \<in> set (cells_list cells).
        row c < 0 \<or> row c \<ge> CELL_ROWS \<or> column c < 0 \<or> column c \<ge> CELL_COLUMNS
        \<or> filled (mPlayfield ! nat (row c) ! nat (column c)))"
  by (simp add: isFilled_def isFilled_at_def list_ex_iff)

text \<open>
  On the empty board, four cells with a column out of range are blocked and four cells
  of the top row are not.
\<close>

theorem C1_isFilled_cells_witness:
  "isFilled (Playfield_reset []) (Cells (cell 10 5) (cell 9 5) (cell 8 5) (cell 7 5))
   \<and> \<not> isFilled (Playfield_reset []) (Cells (cell 3 0) (cell 4 0) (cell 5 0) (cell 6 0))"
proof -
  have e: "\<not> filled (Playfield_reset [] ! 0 ! 3)" "\<not> filled (Playfield_reset [] ! 0 ! 4)"
    "\<not> filled (Playfield_reset [] ! 0 ! 5)" "\<not> filled (Playfield_reset [] ! 0 ! 6)"
    by code_simp+
  show ?thesis
    using e C1_isFilled_cells[of "Playfield_reset []" "Cells (cell 10 5) (cell 9 5) (cell 8 5) (cell 7 5)"]
      C1_isFilled_cells[of "Playfield_reset []" "Cells (cell 3 0) (cell 4 0) (cell 5 0) (cell 6 0)"]
    by (simp add: cell_def)
qed

text \<open>
  C1 as stated fails: the I piece with \<open>mBottom = 0\<close> lies in row \<open>-1\<close>, columns 3 to
  6. On the empty board no block is filled and every column is in range, yet the
  query is true, only because the row is negative.
\<close>

theorem C1_negative_row_counterexample:
  "split_at I_Tetromino 3 0 Up = Cells (cell 3 (-1)) (cell 4 (-1)) (cell 5 (-1)) (cell 6 (-1))
   \<and> concat (map (map filled) (Playfield_reset [])) = replicate 220 False
   \<and> isFilled (Playfield_reset []) (Cells (cell 3 (-1)) (cell 4 (-1)) (cell 5 (-1)) (cell 6 (-1)))"
proof -
  have a: "split_at I_Tetromino 3 0 Up = Cells (cell 3 (-1)) (cell 4 (-1)) (cell 5 (-1)) (cell 6 (-1))"
    by code_simp
  have b: "concat (map (map filled) (Playfield_reset [])) = replicate 220 False"
    by code_simp
  have c: "isFilled (Playfield_reset []) (Cells (cell 3 (-1)) (cell 4 (-1)) (cell 5 (-1)) (cell 6 (-1)))"
    by (simp add: isFilled_def isFilled_at_def cell_def)
  from a b c show ?thesis by blast
qed

subsection \<open>The landing spot is always found\<close>

text \<open>
  C10. \<open>getLandingSpot\<close> returns for every board and every four cells: the result is
  the input moved down by some \<open>d\<close> with \<open>0 \<le> d \<le> 22\<close>, it is the first position
  on the way down that has a blocked cell below, each turn of the loop either returns
  or adds one to every row, and a cell whose row below is 22 or more, or whose column
  is outside the board, stops the loop at once. (The definition of \<open>getLandingSpot\<close>
  is a total function: its termination is proved with it.)
\<close>

theorem C10_getLandingSpot_returns:
  "(\<exists>d. 0 \<le> d \<and> d \<le> CELL_ROWS
        \<and> getLandingSpot mPlayfield cells = shiftRows d cells
        \<and> blockedBelow mPlayfield (shiftRows d cells)
        \<and> (\<forall>k. 0 \<le> k \<and> k < d \<longrightarrow> \<not> blockedBelow mPlayfield (shiftRows k cells)))
   \<and> getLandingSpot mPlayfield cells =
        (if blockedBelow mPlayfield cells then cells
         else getLandingSpot mPlayfield (shiftRows 1 cells))
   \<and> map row (cells_list (shiftRows 1 cells)) = map (\<lambda>c. row c + 1) (cells_list cells)
   \<and> (\<forall>c \<in> set (cells_list cells).
         row c + 1 \<ge> CELL_ROWS \<or> column c < 0 \<or> column c \<ge> CELL_COLUMNS
           \<longrightarrow> blockedBelow mPlayfield cells)"
proof (intro conjI)
  obtain d where d: "0 \<le> d" "d = 0 \<or> (-1 \<le> row (at0 cells) \<and> row (at0 cells) + d \<le> 21)"
    "getLandingSpot mPlayfield cells = shiftRows d cells"
    "blockedBelow mPlayfield (shiftRows d cells)"
    "\<forall>k. 0 \<le> k \<and> k < d \<longrightarrow> \<not> blockedBelow mPlayfield (shiftRows k cells)"
    using getLandingSpot_char[of cells mPlayfield] by blast
  have "d \<le> 22" using d(1,2) by auto
  with d show "\<exists>d. 0 \<le> d \<and> d \<le> CELL_ROWS
        \<and> getLandingSpot mPlayfield cells = shiftRows d cells
        \<and> blockedBelow mPlayfield (shiftRows d cells)
        \<and> (\<forall>k. 0 \<le> k \<and> k < d \<longrightarrow> \<not> blockedBelow mPlayfield (shiftRows k cells))"
    by blast
next
  show "getLandingSpot mPlayfield cells =
        (if blockedBelow mPlayfield cells then cells
         else getLandingSpot mPlayfield (shiftRows 1 cells))"
    by (rule getLandingSpot_step)
next
  show "map row (cells_list (shiftRows 1 cells)) = map (\<lambda>c. row c + 1) (cells_list cells)"
    by (cases cells) (simp add: shiftRows_def)
next
  show "\<forall>c \<in> set (cells_list cells).
         row c + 1 \<ge> CELL_ROWS \<or> column c < 0 \<or> column c \<ge> CELL_COLUMNS
           \<longrightarrow> blockedBelow mPlayfield cells"
    by (auto simp: blockedBelow_def isFilled_at_def list_ex_iff)
qed

text \<open>Four cells of the top row of the empty board land 21 rows further down.\<close>

theorem C10_getLandingSpot_returns_witness:
  "getLandingSpot (Playfield_reset []) (Cells (cell 3 0) (cell 4 0) (cell 5 0) (cell 6 0))
     = Cells (cell 3 21) (cell 4 21) (cell 5 21) (cell 6 21)
   \<and> blockedBelow (Playfield_reset []) (Cells (cell 3 21) (cell 4 21) (cell 5 21) (cell 6 21))"
proof -
  let ?cells = "Cells (cell 3 0) (cell 4 0) (cell 5 0) (cell 6 0)"
  have e: "getLandingSpot (Playfield_reset []) ?cells = shiftRows 21 ?cells"
    by code_simp
  from C10_getLandingSpot_returns[of "Playfield_reset []" ?cells]
  obtain d where d: "getLandingSpot (Playfield_reset []) ?cells = shiftRows d ?cells"
    "blockedBelow (Playfield_reset []) (shiftRows d ?cells)"
    by blast
  from d(1) e have "d = 21"
    by (simp add: shiftRows_def cell_def)
  with d show ?thesis
    by (simp add: shiftRows_def cell_def)
qed

subsection \<open>Settling a piece\<close>

text \<open>
  C2 (as amended). On a board of 22 rows of 10 blocks and four cells inside the grid,
  \<open>onLanding\<close> does not throw; it marks the four cells filled (with the colour given)
  and leaves every other block as it was; it removes every row of the marked board
  whose ten blocks are all filled, puts equally many fresh rows (ten blocks, none
  filled) on top and returns their number \<open>k\<close>; the board has 22 rows before and
  after; and a row that is not removed moves down by the number of removed rows
  below it.
\<close>

theorem C2_onLanding_settles:
  assumes "Playfield_shape mPlayfield" and "list_all inGrid (cells_list cells)"
  shows "\<exists>marked k landed.
     fillCells (cells_list cells) clr mPlayfield = Inr marked
   \<and> (\<forall>r<22. \<forall>c<10. marked ! r ! c =
         (if \<lparr>column = int c, row = int r\<rparr> \<in> set (cells_list cells)
          then \<lparr>color = clr, filled = True\<rparr> else mPlayfield ! r ! c))
   \<and> k = length (filter (list_all filled) marked)
   \<and> landed = replicate k Row_init @ filter (\<lambda>r. \<not> list_all filled r) marked
   \<and> onLanding mPlayfield cells clr = Inr (landed, int k)
   \<and> length mPlayfield = 22 \<and> length landed = 22 \<and> Playfield_shape landed
   \<and> (\<forall>i<22. \<not> list_all filled (marked ! i) \<longrightarrow>
          landed ! (i + length (filter (list_all filled) (drop (Suc i) marked))) = marked ! i)"
proof -
  from fillCells_marks[OF assms, of clr] obtain marked where m:
    "fillCells (cells_list cells) clr mPlayfield = Inr marked" "Playfield_shape marked"
    "\<forall>r<22. \<forall>c<10. marked ! r ! c =
         (if \<lparr>column = int c, row = int r\<rparr> \<in> set (cells_list cells)
          then \<lparr>color = clr, filled = True\<rparr> else mPlayfield ! r ! c)"
    by blast
  let ?k = "length (filter (list_all filled) marked)"
  let ?landed = "replicate ?k Row_init @ filter (\<lambda>r. \<not> list_all filled r) marked"
  have len: "length marked = 22" "length mPlayfield = 22"
    using m(2) assms(1) by (simp_all add: Playfield_shape_def)
  have sh: "Playfield_shape ?landed"
    by (rule result_shape[OF m(2)])
  then have len': "length ?landed = 22"
    by (simp add: Playfield_shape_def)
  have surv: "\<forall>i<22. \<not> list_all filled (marked ! i) \<longrightarrow>
          ?landed ! (i + length (filter (list_all filled) (drop (Suc i) marked))) = marked ! i"
    using survivors_shift[of _ marked] len(1) by simp
  show ?thesis
    using m(1) m(3) onLanding_result[OF m(1)] len(2) len' sh surv by blast
qed

text \<open>
  The example board: row 21 lacks its four left blocks, row 20 has one block, the
  rest is empty. An I piece lying in row 21 completes that row.
\<close>

lemma C2_ex_shape: "Playfield_shape board_C2"
  by code_simp

lemma C2_ex_grid: "list_all inGrid (cells_list cells_C2)"
  by code_simp

lemma C2_ex_fill:
  "fillCells (cells_list cells_C2) (tetromino_color I_Tetromino) board_C2 = Inr marked_C2"
  by code_simp

lemma C2_ex_land: "onLanding board_C2 cells_C2 (tetromino_color I_Tetromino) = Inr (landed_C2, 1)"
  by code_simp

lemma C2_ex_rows:
  "\<not> list_all filled (marked_C2 ! 20)"
  "length (filter (list_all filled) (take 20 marked_C2)) = 0"
  "length (filter (list_all filled) (drop 21 marked_C2)) = 1"
  "landed_C2 ! 20 \<noteq> marked_C2 ! 20"
  "landed_C2 ! 21 = marked_C2 ! 20"
  by code_simp+

theorem C2_onLanding_settles_witness:
  "Playfield_shape board_C2 \<and> list_all inGrid (cells_list cells_C2)
   \<and> onLanding board_C2 cells_C2 (tetromino_color I_Tetromino) = Inr (landed_C2, 1)
   \<and> length landed_C2 = 22
   \<and> landed_C2 ! 21 = marked_C2 ! 20"
proof -
  from C2_onLanding_settles[OF C2_ex_shape C2_ex_grid, of "tetromino_color I_Tetromino"]
  obtain marked k landed where r:
    "fillCells (cells_list cells_C2) (tetromino_color I_Tetromino) board_C2 = Inr marked"
    "onLanding board_C2 cells_C2 (tetromino_color I_Tetromino) = Inr (landed, int k)"
    "length landed = 22"
    "\<forall>i<22. \<not> list_all filled (marked ! i) \<longrightarrow>
          landed ! (i + length (filter (list_all filled) (drop (Suc i) marked))) = marked ! i"
    by blast
  from r(1) C2_ex_fill have m: "marked = marked_C2" by simp
  from r(2) C2_ex_land have l: "landed = landed_C2" by simp
  from r(4) m l C2_ex_rows(1,3) have "landed_C2 ! 21 = marked_C2 ! 20"
    by (auto dest!: spec[of _ 20])
  with r(3) l C2_ex_shape C2_ex_grid C2_ex_land show ?thesis by simp
qed

text \<open>
  C2 as stated fails in its last part. On the example board row 21 is removed. Row 20
  survives and no removed row lies above it, so by the claim it would stay at index
  \<open>20 + 0\<close>; it moves to index 21, down by the one removed row below it.
\<close>

theorem C2_rows_above_counterexample:
  "Playfield_shape board_C2 \<and> list_all inGrid (cells_list cells_C2)
   \<and> fillCells (cells_list cells_C2) (tetromino_color I_Tetromino) board_C2 = Inr marked_C2
   \<and> onLanding board_C2 cells_C2 (tetromino_color I_Tetromino) = Inr (landed_C2, 1)
   \<and> \<not> list_all filled (marked_C2 ! 20)
   \<and> length (filter (list_all filled) (take 20 marked_C2)) = 0
   \<and> landed_C2 ! (20 + 0) \<noteq> marked_C2 ! 20
   \<and> landed_C2 ! (20 + 1) = marked_C2 ! 20"
  using C2_ex_shape C2_ex_grid C2_ex_fill C2_ex_land C2_ex_rows by simp

subsection \<open>Soft drop and hard drop\<close>

lemma piece_T_free_spawned: "spawn (Playfield_reset []) 0 (new_Tetromino T_Tetromino) = piece_T_free"
  by code_simp

lemma not_isFilled_inGrid:
  "\<not> isFilled pf cells \<Longrightarrow> list_all inGrid (cells_list cells)"
  by (auto simp: isFilled_def isFilled_at_def inGrid_def list_ex_iff list_all_iff)

lemma resting_ex:
  "mLocking piece_T_resting" "Playfield_shape (Playfield_reset [])"
  "\<not> isFilled (Playfield_reset []) (split_cells piece_T_resting)"
  "split_cells piece_T_resting = Cells (cell 4 20) (cell 3 21) (cell 4 21) (cell 5 21)"
  by code_simp+

lemma resting_land:
  "onLanding (Playfield_reset []) (Cells (cell 4 20) (cell 3 21) (cell 4 21) (cell 5 21))
     (tetromino_color T_Tetromino)
   = Inr (replicate 20 Row_init
            @ [Row_init[4 := filledBlock (tetromino_color T_Tetromino)],
               Row_init[3 := filledBlock (tetromino_color T_Tetromino),
                        4 := filledBlock (tetromino_color T_Tetromino),
                        5 := filledBlock (tetromino_color T_Tetromino)]], 0)"
  by code_simp

lemma free_ex:
  "\<not> mLocking piece_T_free"
  "getLandingSpot (Playfield_reset []) (split_cells piece_T_free) = shiftRows 18 (split_cells piece_T_free)"
  "row (at0 (split_cells piece_T_free)) = 2"
  by code_simp+

text \<open>
  C4. \<open>softDrop(maxRows)\<close> on a piece that is locking returns 0 and leaves the piece as
  it is. Otherwise let \<open>d\<close> be the landing distance: the landing spot of the board is
  the piece's cells moved down \<open>d\<close> rows, \<open>0 \<le> d \<le> 22\<close>, the first position with a
  blocked cell below. If \<open>d \<le> maxRows\<close> the piece moves down exactly \<open>d\<close> rows, is
  locking with the lock time set to now, and \<open>d\<close> is returned; if \<open>d > maxRows\<close> it
  moves down exactly \<open>maxRows\<close> rows, is still not locking, and \<open>maxRows\<close> is returned.
\<close>

theorem C4_softDrop:
  "(mLocking t \<longrightarrow> softDrop mPlayfield ticksNow maxRows t = (t, 0))
   \<and> (\<not> mLocking t \<longrightarrow>
        (\<exists>d. 0 \<le> d \<and> d \<le> CELL_ROWS
           \<and> getLandingSpot mPlayfield (split_cells t) = shiftRows d (split_cells t)
           \<and> blockedBelow mPlayfield (shiftRows d (split_cells t))
           \<and> (\<forall>k. 0 \<le> k \<and> k < d \<longrightarrow> \<not> blockedBelow mPlayfield (shiftRows k (split_cells t)))
           \<and> (d \<le> maxRows \<longrightarrow>
                 softDrop mPlayfield ticksNow maxRows t
                   = (t\<lparr>mBottom := mBottom t + d, mLocking := True, mLockTicks := ticksNow\<rparr>, d)
                 \<and> split_cells (fst (softDrop mPlayfield ticksNow maxRows t))
                     = shiftRows d (split_cells t))
           \<and> (d > maxRows \<longrightarrow>
                 softDrop mPlayfield ticksNow maxRows t = (t\<lparr>mBottom := mBottom t + maxRows\<rparr>, maxRows)
                 \<and> \<not> mLocking (fst (softDrop mPlayfield ticksNow maxRows t))
                 \<and> split_cells (fst (softDrop mPlayfield ticksNow maxRows t))
                     = shiftRows maxRows (split_cells t))))"
proof (intro conjI impI)
  assume "mLocking t"
  then show "softDrop mPlayfield ticksNow maxRows t = (t, 0)" by (simp add: softDrop_def)
next
  assume free: "\<not> mLocking t"
  obtain d where d: "0 \<le> d"
    "d = 0 \<or> (-1 \<le> row (at0 (split_cells t)) \<and> row (at0 (split_cells t)) + d \<le> 21)"
    "getLandingSpot mPlayfield (split_cells t) = shiftRows d (split_cells t)"
    "blockedBelow mPlayfield (shiftRows d (split_cells t))"
    "\<forall>k. 0 \<le> k \<and> k < d \<longrightarrow> \<not> blockedBelow mPlayfield (shiftRows k (split_cells t))"
    using getLandingSpot_char[of "split_cells t" mPlayfield] by blast
  have h: "row (at0 (getLandingSpot mPlayfield (split_cells t))) - row (at0 (split_cells t)) = d"
    by (simp add: d(3))
  have le: "d \<le> 22" using d(1,2) by auto
  have a: "softDrop mPlayfield ticksNow maxRows t
             = (t\<lparr>mBottom := mBottom t + d, mLocking := True, mLockTicks := ticksNow\<rparr>, d)"
    if "d \<le> maxRows"
    using that free h by (simp add: softDrop_def Let_def lock_def)
  have b: "softDrop mPlayfield ticksNow maxRows t = (t\<lparr>mBottom := mBottom t + maxRows\<rparr>, maxRows)"
    if "d > maxRows"
    using that free h by (simp add: softDrop_def Let_def)
  have sh: "split_cells (t\<lparr>mBottom := mBottom t + x\<rparr>) = shiftRows x (split_cells t)" for x
    by (simp add: split_cells_def split_at_shift)
  have sh': "split_cells (t\<lparr>mBottom := mBottom t + x, mLocking := True, mLockTicks := ticksNow\<rparr>)
               = shiftRows x (split_cells t)" for x
    by (simp add: split_cells_def split_at_shift)
  show "\<exists>d. 0 \<le> d \<and> d \<le> CELL_ROWS
           \<and> getLandingSpot mPlayfield (split_cells t) = shiftRows d (split_cells t)
           \<and> blockedBelow mPlayfield (shiftRows d (split_cells t))
           \<and> (\<forall>k. 0 \<le> k \<and> k < d \<longrightarrow> \<not> blockedBelow mPlayfield (shiftRows k (split_cells t)))
           \<and> (d \<le> maxRows \<longrightarrow>
                 softDrop mPlayfield ticksNow maxRows t
                   = (t\<lparr>mBottom := mBottom t + d, mLocking := True, mLockTicks := ticksNow\<rparr>, d)
                 \<and> split_cells (fst (softDrop mPlayfield ticksNow maxRows t))
                     = shiftRows d (split_cells t))
           \<and> (d > maxRows \<longrightarrow>
                 softDrop mPlayfield ticksNow maxRows t = (t\<lparr>mBottom := mBottom t + maxRows\<rparr>, maxRows)
                 \<and> \<not> mLocking (fst (softDrop mPlayfield ticksNow maxRows t))
                 \<and> split_cells (fst (softDrop mPlayfield ticksNow maxRows t))
                     = shiftRows maxRows (split_cells t))"
    using d(1) le d(3,4,5) a b free sh sh' by (intro exI[of _ d]) auto
qed

text \<open>
  On the empty board: the resting piece stays; the spawned T piece, 18 rows above its
  landing spot, drops one row for \<open>maxRows = 1\<close> and 18 rows, locking, for
  \<open>maxRows = 22\<close>.
\<close>

theorem C4_softDrop_witness:
  "mLocking piece_T_resting \<and> \<not> mLocking piece_T_free
   \<and> softDrop (Playfield_reset []) 9 5 piece_T_resting = (piece_T_resting, 0)
   \<and> softDrop (Playfield_reset []) 9 1 piece_T_free = (piece_T_free\<lparr>mBottom := 5\<rparr>, 1)
   \<and> softDrop (Playfield_reset []) 9 22 piece_T_free
        = (piece_T_free\<lparr>mBottom := 22, mLocking := True, mLockTicks := 9\<rparr>, 18)"
proof -
  have a: "softDrop (Playfield_reset []) 9 5 piece_T_resting = (piece_T_resting, 0)"
    using C4_softDrop[of piece_T_resting "Playfield_reset []" 9 5] resting_ex(1) by simp
  have mb: "mBottom piece_T_free = 4" by (simp add: piece_T_free_def)
  have d18: "d = 18" if "getLandingSpot (Playfield_reset []) (split_cells piece_T_free) = shiftRows d (split_cells piece_T_free)" for d
  proof -
    from that free_ex(2) have "shiftRows d (split_cells piece_T_free) = shiftRows 18 (split_cells piece_T_free)"
      by simp
    then have "row (at0 (shiftRows d (split_cells piece_T_free))) = row (at0 (shiftRows 18 (split_cells piece_T_free)))"
      by simp
    then show ?thesis by simp
  qed
  have b: "softDrop (Playfield_reset []) 9 1 piece_T_free = (piece_T_free\<lparr>mBottom := 5\<rparr>, 1)"
  proof -
    from C4_softDrop[of piece_T_free "Playfield_reset []" 9 1] free_ex(1)
    obtain d where d:
      "getLandingSpot (Playfield_reset []) (split_cells piece_T_free) = shiftRows d (split_cells piece_T_free)"
      "d > 1 \<longrightarrow> softDrop (Playfield_reset []) 9 1 piece_T_free
                   = (piece_T_free\<lparr>mBottom := mBottom piece_T_free + 1\<rparr>, 1)"
      by blast
    from d18[OF d(1)] d(2) mb show ?thesis by simp
  qed
  have c: "softDrop (Playfield_reset []) 9 22 piece_T_free
        = (piece_T_free\<lparr>mBottom := 22, mLocking := True, mLockTicks := 9\<rparr>, 18)"
  proof -
    from C4_softDrop[of piece_T_free "Playfield_reset []" 9 22] free_ex(1)
    obtain d where d:
      "getLandingSpot (Playfield_reset []) (split_cells piece_T_free) = shiftRows d (split_cells piece_T_free)"
      "d \<le> 22 \<longrightarrow> softDrop (Playfield_reset []) 9 22 piece_T_free
                   = (piece_T_free\<lparr>mBottom := mBottom piece_T_free + d, mLocking := True, mLockTicks := 9\<rparr>, d)"
      by blast
    from d18[OF d(1)] d(2) mb show ?thesis by simp
  qed
  from a b c resting_ex(1) free_ex(1) show ?thesis by simp
qed

text \<open>
  C8. \<open>hardDrop\<close> on a piece that is locking: the soft drop inside moves nothing and
  reports 0 rows, so the result is that of \<open>onLanding\<close> on the cells of the piece where
  it is: the same exception if that throws, else the new board, the piece unchanged,
  the rows cleared by that settle and \<open>dropped = 0\<close>. For a piece that does not overlap
  anything on a well-shaped board \<open>onLanding\<close> does not throw.
\<close>

theorem C8_hardDrop_locking:
  assumes "mLocking t"
  shows "hardDrop mPlayfield ticksNow t =
           (case onLanding mPlayfield (split_cells t) (tetromino_color (kind t)) of
              Inl e \<Rightarrow> Inl e
            | Inr (mPlayfield', c) \<Rightarrow> Inr (mPlayfield', t, \<lparr>cleard = c, dropped = 0\<rparr>))
         \<and> (Playfield_shape mPlayfield \<and> \<not> isFilled mPlayfield (split_cells t) \<longrightarrow>
               (\<exists>mPlayfield' c.
                  onLanding mPlayfield (split_cells t) (tetromino_color (kind t)) = Inr (mPlayfield', c)
                  \<and> hardDrop mPlayfield ticksNow t = Inr (mPlayfield', t, \<lparr>cleard = c, dropped = 0\<rparr>)))"
proof (intro conjI impI)
  have sd: "softDrop mPlayfield ticksNow CELL_ROWS t = (t, 0)"
    using assms by (simp add: softDrop_def)
  show hd: "hardDrop mPlayfield ticksNow t =
           (case onLanding mPlayfield (split_cells t) (tetromino_color (kind t)) of
              Inl e \<Rightarrow> Inl e
            | Inr (mPlayfield', c) \<Rightarrow> Inr (mPlayfield', t, \<lparr>cleard = c, dropped = 0\<rparr>))"
    by (simp add: hardDrop_def sd)
  assume live: "Playfield_shape mPlayfield \<and> \<not> isFilled mPlayfield (split_cells t)"
  then have "list_all inGrid (cells_list (split_cells t))"
    using not_isFilled_inGrid by blast
  with live obtain marked where m:
    "fillCells (cells_list (split_cells t)) (tetromino_color (kind t)) mPlayfield = Inr marked"
    using fillCells_marks[of mPlayfield "cells_list (split_cells t)" "tetromino_color (kind t)"] by blast
  from onLanding_result[OF m] hd
  show "\<exists>mPlayfield' c.
                  onLanding mPlayfield (split_cells t) (tetromino_color (kind t)) = Inr (mPlayfield', c)
                  \<and> hardDrop mPlayfield ticksNow t = Inr (mPlayfield', t, \<lparr>cleard = c, dropped = 0\<rparr>)"
    by simp
qed

text \<open>The resting T piece settles into rows 20 and 21 of the empty board; no row is cleared.\<close>

theorem C8_hardDrop_locking_witness:
  "mLocking piece_T_resting
   \<and> split_cells piece_T_resting = Cells (cell 4 20) (cell 3 21) (cell 4 21) (cell 5 21)
   \<and> hardDrop (Playfield_reset []) 9 piece_T_resting
       = Inr (replicate 20 Row_init
                @ [Row_init[4 := filledBlock (tetromino_color T_Tetromino)],
                   Row_init[3 := filledBlock (tetromino_color T_Tetromino),
                            4 := filledBlock (tetromino_color T_Tetromino),
                            5 := filledBlock (tetromino_color T_Tetromino)]],
              piece_T_resting, \<lparr>cleard = 0, dropped = 0\<rparr>)"
proof -
  have k: "kind piece_T_resting = T_Tetromino" by (simp add: piece_T_resting_def)
  from C8_hardDrop_locking[OF resting_ex(1), of "Playfield_reset []" 9] resting_ex resting_land k
  show ?thesis by simp
qed

subsection \<open>Timer\<close>

text \<open>
  C7. While the timer is paused \<open>getTicks\<close> does not depend on the wall clock. Pausing
  a running timer at wall time \<open>w0\<close> freezes \<open>getTicks\<close> at the value it had at \<open>w0\<close>;
  resuming at \<open>w1\<close> adds the pause duration \<open>w1 - w0\<close> to \<open>mPausedTicks\<close>, so that the
  logical time between a reading before the pause and a reading after the resume is the
  wall-clock time between them less the paused interval (all in \<open>Uint32\<close> arithmetic).
  Pausing a paused timer and resuming a running one change nothing.
\<close>

theorem C7_timer_pause_resume:
  "(mHasPaused tm \<longrightarrow> getTicks tm wall = getTicks tm wall')
   \<and> (\<not> mHasPaused tm \<longrightarrow>
         mHasPaused (pause w0 tm)
         \<and> getTicks (pause w0 tm) wall = getTicks tm w0
         \<and> \<not> mHasPaused (resume w1 (pause w0 tm))
         \<and> mPausedTicks (resume w1 (pause w0 tm)) = mPausedTicks tm + (w1 - w0)
         \<and> getTicks (resume w1 (pause w0 tm)) wall' - getTicks tm wall
             = (wall' - wall) - (w1 - w0))
   \<and> (mHasPaused tm \<longrightarrow> pause wall tm = tm)
   \<and> (\<not> mHasPaused tm \<longrightarrow> resume wall tm = tm)"
  by (simp add: getTicks_def pause_def resume_def)

text \<open>
  A running timer paused at 1000 reads 1000 at wall time 5000; resumed at 4000, the
  logical time from wall 900 to wall 4500 is 600, not 3600.
\<close>

theorem C7_timer_pause_resume_witness:
  "\<not> mHasPaused timer_running
   \<and> getTicks (pause 1000 timer_running) 5000 = 1000
   \<and> getTicks (resume 4000 (pause 1000 timer_running)) 4500 - getTicks timer_running 900 = 600
   \<and> mHasPaused (pause 1000 timer_running)
   \<and> pause 2000 (pause 1000 timer_running) = pause 1000 timer_running
   \<and> resume 3000 timer_running = timer_running"
proof -
  have n: "\<not> mHasPaused timer_running" by (simp add: timer_running_def)
  have t: "getTicks timer_running w = w" for w by (simp add: timer_running_def getTicks_def)
  from C7_timer_pause_resume[of timer_running 5000 5000 1000 4000] n t
  have a: "getTicks (pause 1000 timer_running) 5000 = 1000" "mHasPaused (pause 1000 timer_running)"
    by simp_all
  from C7_timer_pause_resume[of timer_running 900 4500 1000 4000] n t
  have b: "getTicks (resume 4000 (pause 1000 timer_running)) 4500 - getTicks timer_running 900 = 600"
    by simp
  from C7_timer_pause_resume[of "pause 1000 timer_running" 2000] a(2)
  have c: "pause 2000 (pause 1000 timer_running) = pause 1000 timer_running"
    by simp
  from C7_timer_pause_resume[of timer_running 3000] n
  have d: "resume 3000 timer_running = timer_running"
    by simp
  from n a b c d show ?thesis by simp
qed

subsection \<open>The exit prompt\<close>

lemma make_manager: "make rs g = (t, g') \<Longrightarrow> manager g' = manager g \<and> timer g' = timer g"
  by (auto simp: make_def Let_def split: prod.splits if_splits)

lemma TetrominoController_reset_manager:
  "manager (TetrominoController_reset rs wall g) = manager g"
  by (auto simp: TetrominoController_reset_def Let_def split: prod.splits dest!: make_manager)

lemma Game_reset_manager: "manager (Game_reset rs wall g) = manager g"
  by (simp add: Game_reset_def TetrominoController_reset_manager)

lemma onExit_manager: "manager (onExit rs wall this nxt g) = manager g"
  by (simp add: onExit_def Game_reset_manager split: ID.splits)

lemma onEnter_manager: "manager (onEnter wall this g) = manager g"
  by (simp add: onEnter_def split: ID.splits)

lemma changeState_manager:
  "manager (changeState rs wall state g) = \<lparr>mLastState = mCurrState (manager g), mCurrState = Some state\<rparr>"
  by (simp add: changeState_def Let_def onEnter_manager onExit_manager split: option.splits)

text \<open>The example game is what a reset makes of it.\<close>

lemma reset_empty: "Playfield_reset (Playfield_reset []) = Playfield_reset []"
  by (simp add: Playfield_reset_def Row_init_def)

lemma spawn_free_any_time:
  assumes "\<not> mLocking (spawn mPlayfield 0 t)"
  shows "spawn mPlayfield ticksNow t = spawn mPlayfield 0 t"
proof -
  define t2 where "t2 =
    (case find (\<lambda>bottom. \<not> isFilled mPlayfield (split_with (init t) (mLeft (init t)) bottom))
            (rev [mBottom (init t) .. HIDDEN_ROWS + mBottom (init t)]) of
       None \<Rightarrow> init t
     | Some bottom \<Rightarrow> (init t)\<lparr>mBottom := bottom\<rparr>)"
  have s: "spawn mPlayfield now t =
             (if isFilled mPlayfield (split_with t2 (mLeft t2) (mBottom t2 + 1)) then lock now t2 else t2)"
    for now
    by (simp add: spawn_def Let_def t2_def)
  from assms have "\<not> isFilled mPlayfield (split_with t2 (mLeft t2) (mBottom t2 + 1))"
    unfolding s by (auto simp: lock_def)
  then show ?thesis unfolding s by simp
qed

lemma spawn_I_empty_0:
  "spawn (Playfield_reset []) 0 (new_Tetromino I_Tetromino)
     = \<lparr>kind = I_Tetromino, mLeft = 3, mBottom = 3, mState = Up, mLockTicks = 0, mLocking = False\<rparr>"
  by code_simp

lemma spawn_I_empty:
  "spawn (Playfield_reset []) ticksNow (new_Tetromino I_Tetromino)
     = \<lparr>kind = I_Tetromino, mLeft = 3, mBottom = 3, mState = Up, mLockTicks = 0, mLocking = False\<rparr>"
  using spawn_free_any_time[of "Playfield_reset []" "new_Tetromino I_Tetromino" ticksNow]
  by (simp add: spawn_I_empty_0)

lemma game_start_reset: "Game_reset no_shuffle wall game_start = game_start"
  unfolding Game_reset_def TetrominoController_reset_def make_def no_shuffle_def Let_def
        game_start_def
  by (simp add: reset_empty spawn_I_empty)

lemma exit_prompt_ex:
  "mCurrState (manager game_exit_prompt) = Some BeforeExit"
  "mLastState (manager game_exit_prompt) = Some Paused"
  "mCurrState (manager game_start) = Some Paused"
  "mHasPaused (timer game_start)"
  "timer game_exit_prompt = timer game_start"
  by (simp_all add: game_exit_prompt_def game_start_def)

lemma exit_prompt_entered: "changeState no_shuffle 0 BeforeExit game_start = game_exit_prompt"
  by (simp add: changeState_def game_exit_prompt_def exit_prompt_ex onExit_def onEnter_def Let_def)

text \<open>
  C6 (as amended). At the exit prompt (\<open>BeforeExit\<close>) with a previous state, the
  Return key goes back to that previous state: it becomes the current state again and
  \<open>BeforeExit\<close> the previous one, and nothing else changes but the timer, which is
  paused if the state gone back to is \<open>Paused\<close>. The Escape key ends the process.
  Return is the key that takes \<open>Paused\<close> to \<open>Playing\<close>, and Escape the key that takes
  \<open>Playing\<close> to \<open>Paused\<close>.
\<close>

theorem C6_exit_prompt_keys:
  assumes "mCurrState (manager g) = Some BeforeExit" and "mLastState (manager g) = Some previous"
  shows "handleEvents rs wall [SDL_KEYDOWN SDLK_ESCAPE repeat] g = Inl exit_success
       \<and> handleEvents rs wall [SDL_KEYDOWN SDLK_RETURN repeat] g =
           Inr (g\<lparr>timer := (if previous = Paused then pause wall (timer g) else timer g),
                  manager := \<lparr>mLastState = Some BeforeExit, mCurrState = Some previous\<rparr>\<rparr>)
       \<and> (\<forall>g'::Game. mCurrState (manager g') = Some Paused \<longrightarrow>
              (\<exists>g''. handleEvents rs wall [SDL_KEYDOWN SDLK_RETURN repeat] g' = Inr g''
                      \<and> mCurrState (manager g'') = Some Playing))
       \<and> (\<forall>g'::Game. mCurrState (manager g') = Some Playing \<longrightarrow>
              (\<exists>g''. handleEvents rs wall [SDL_KEYDOWN SDLK_ESCAPE repeat] g' = Inr g''
                      \<and> mCurrState (manager g'') = Some Paused))"
proof (intro conjI allI impI)
  show "handleEvents rs wall [SDL_KEYDOWN SDLK_ESCAPE repeat] g = Inl exit_success"
    using assms by (simp add: handleEvent_def BeforeExit_handleEvent_def)
  show "handleEvents rs wall [SDL_KEYDOWN SDLK_RETURN repeat] g =
           Inr (g\<lparr>timer := (if previous = Paused then pause wall (timer g) else timer g),
                  manager := \<lparr>mLastState = Some BeforeExit, mCurrState = Some previous\<rparr>\<rparr>)"
    using assms
    by (cases previous) (simp_all add: handleEvent_def BeforeExit_handleEvent_def goBack_def onExit_def onEnter_def)
next
  fix g' :: Game assume "mCurrState (manager g') = Some Paused"
  then show "\<exists>g''. handleEvents rs wall [SDL_KEYDOWN SDLK_RETURN repeat] g' = Inr g''
                      \<and> mCurrState (manager g'') = Some Playing"
    by (simp add: handleEvent_def PauseState_handleEvent_def changeState_manager)
next
  fix g' :: Game assume "mCurrState (manager g') = Some Playing"
  then show "\<exists>g''. handleEvents rs wall [SDL_KEYDOWN SDLK_ESCAPE repeat] g' = Inr g''
                      \<and> mCurrState (manager g'') = Some Paused"
    by (simp add: handleEvent_def PlayState_handleEvent_def changeState_manager)
qed

text \<open>The exit prompt entered from the paused start of the game.\<close>

theorem C6_exit_prompt_keys_witness:
  "mCurrState (manager game_exit_prompt) = Some BeforeExit
   \<and> mLastState (manager game_exit_prompt) = Some Paused
   \<and> handleEvents no_shuffle 5 [SDL_KEYDOWN SDLK_ESCAPE False] game_exit_prompt = Inl exit_success
   \<and> handleEvents no_shuffle 5 [SDL_KEYDOWN SDLK_RETURN False] game_exit_prompt
       = Inr (game_start\<lparr>manager := \<lparr>mLastState = Some BeforeExit, mCurrState = Some Paused\<rparr>\<rparr>)"
proof -
  have p: "pause 5 (timer game_exit_prompt) = timer game_start"
    by (simp add: pause_def exit_prompt_ex)
  have e: "game_exit_prompt\<lparr>timer := timer game_start,
             manager := \<lparr>mLastState = Some BeforeExit, mCurrState = Some Paused\<rparr>\<rparr>
           = game_start\<lparr>manager := \<lparr>mLastState = Some BeforeExit, mCurrState = Some Paused\<rparr>\<rparr>"
    by (simp add: game_exit_prompt_def)
  from C6_exit_prompt_keys[OF exit_prompt_ex(1,2), of no_shuffle 5 False] p e exit_prompt_ex(1,2)
  show ?thesis by simp
qed

text \<open>
  C6 as stated fails: Return takes the paused game to \<open>Playing\<close>, so it is the confirm
  input; at the exit prompt Return does not end the process but goes back to \<open>Paused\<close>,
  and it is Escape that ends it.
\<close>

theorem C6_confirm_key_counterexample:
  "mCurrState (manager game_start) = Some Paused
   \<and> mCurrState (manager game_exit_prompt) = Some BeforeExit
   \<and> handleEvents no_shuffle 5 [SDL_KEYDOWN SDLK_RETURN False] game_start
       = Inr (game_start\<lparr>timer := resume 5 (timer game_start),
                          manager := \<lparr>mLastState = Some Paused, mCurrState = Some Playing\<rparr>\<rparr>)
   \<and> handleEvents no_shuffle 5 [SDL_KEYDOWN SDLK_RETURN False] game_exit_prompt
       = Inr (game_start\<lparr>manager := \<lparr>mLastState = Some BeforeExit, mCurrState = Some Paused\<rparr>\<rparr>)
   \<and> handleEvents no_shuffle 5 [SDL_KEYDOWN SDLK_RETURN False] game_exit_prompt \<noteq> Inl exit_success
   \<and> handleEvents no_shuffle 5 [SDL_KEYDOWN SDLK_ESCAPE False] game_exit_prompt = Inl exit_success"
proof -
  have a: "handleEvents no_shuffle 5 [SDL_KEYDOWN SDLK_RETURN False] game_start
       = Inr (game_start\<lparr>timer := resume 5 (timer game_start),
                          manager := \<lparr>mLastState = Some Paused, mCurrState = Some Playing\<rparr>\<rparr>)"
    by (simp add: exit_prompt_ex handleEvent_def PauseState_handleEvent_def changeState_def
          onExit_def onEnter_def Let_def)
  have b: "handleEvents no_shuffle 5 [SDL_KEYDOWN SDLK_RETURN False] game_exit_prompt
       = Inr (game_start\<lparr>manager := \<lparr>mLastState = Some BeforeExit, mCurrState = Some Paused\<rparr>\<rparr>)"
    by (simp add: exit_prompt_ex handleEvent_def BeforeExit_handleEvent_def goBack_def
          onExit_def onEnter_def Let_def pause_def)
       (simp add: game_exit_prompt_def)
  have c: "handleEvents no_shuffle 5 [SDL_KEYDOWN SDLK_ESCAPE False] game_exit_prompt = Inl exit_success"
    by (simp add: exit_prompt_ex handleEvent_def BeforeExit_handleEvent_def)
  from a b c exit_prompt_ex(1,3) show ?thesis by simp
qed

subsection \<open>Score board\<close>

lemma sint_add_small:
  "- 2147483648 \<le> sint a + sint b \<Longrightarrow> sint a + sint b < 2147483648
     \<Longrightarrow> sint (a + b :: 32 word) = sint a + sint b"
  by (simp add: sint_word_add signed_take_bit_int_eq_self)

lemma sint_diff_small:
  "- 2147483648 \<le> sint a - sint b \<Longrightarrow> sint a - sint b < 2147483648
     \<Longrightarrow> sint (a - b :: 32 word) = sint a - sint b"
  by (simp add: sint_word_diff signed_take_bit_int_eq_self)

lemma sint_mult_small:
  "- 2147483648 \<le> sint a * sint b \<Longrightarrow> sint a * sint b < 2147483648
     \<Longrightarrow> sint (a * b :: 32 word) = sint a * sint b"
  by (simp add: sint_word_mult signed_take_bit_int_eq_self)

lemma rows_cases:
  assumes "0 \<le> sint (r :: 32 word)" "sint r \<le> 4"
  shows "r = 0 \<or> r = 1 \<or> r = 2 \<or> r = 3 \<or> r = 4"
proof -
  from assms have "sint r = 0 \<or> sint r = 1 \<or> sint r = 2 \<or> sint r = 3 \<or> sint r = 4"
    by arith
  moreover have "r = word_of_int (sint r)" by simp
  ultimately show ?thesis by (metis of_int_0 of_int_1 of_int_numeral)
qed

lemma level_times5:
  assumes "1 \<le> sint (l :: 32 word)" "sint l \<le> 15"
  shows "sint (l * 5) = sint l * 5"
  using assms by (subst sint_mult_small) auto

lemma level_succ:
  assumes "1 \<le> sint (l :: 32 word)" "sint l \<le> 15"
  shows "sint (l + 1) = sint l + 1"
  using assms by (subst sint_add_small) auto

lemma level_inv_reset: "level_inv ScoreBoard_reset"
  by (simp add: level_inv_def ScoreBoard_reset_def)

lemma tryLevelUp_eq:
  assumes "1 \<le> sint (mCurrLevel sb)" "sint (mCurrLevel sb) \<le> 15"
  shows "tryLevelUp sb =
           Inr (if sint (mCurrLevel sb) < 15 \<and> sint (mCurrCleardRows sb) \<ge> sint (mCurrLevel sb) * 5
                then sb\<lparr>mTicksPerRow := speeds ! nat (sint (mCurrLevel sb)),
                        mCurrCleardRows := mCurrCleardRows sb - mCurrLevel sb * 5,
                        mCurrLevel := mCurrLevel sb + 1\<rparr>
                else sb)"
  using assms by (simp add: tryLevelUp_def Let_def level_times5)

lemma onClear_eq:
  assumes "0 < sint rows" "sint rows \<le> 4"
  shows "onClear rows sb =
           tryLevelUp (sb\<lparr>mScores := mScores sb + [100, 300, 500, 800] ! nat (sint rows - 1) * mCurrLevel sb,
                          mTotalCleardRows := mTotalCleardRows sb + rows,
                          mCurrCleardRows := mCurrCleardRows sb + rows\<rparr>)"
  using assms by (simp add: onClear_def)

lemma onClear_0: "sint rows \<le> 0 \<Longrightarrow> onClear rows sb = Inr sb"
  by (simp add: onClear_def)

lemma onClear_throws: "4 < sint rows \<Longrightarrow> onClear rows sb = Inl out_of_range"
  by (simp add: onClear_def)

lemma cur_add:
  assumes "level_inv sb" "sint (mCurrLevel sb) < 15" "0 < sint rows" "sint rows \<le> 4"
  shows "sint (mCurrCleardRows sb + rows) = sint (mCurrCleardRows sb) + sint rows"
  using assms by (subst sint_add_small) (auto simp: level_inv_def)

lemma onClear_inv:
  assumes inv: "level_inv sb" and r: "0 < sint rows" "sint rows \<le> 4"
  shows "\<exists>sb'. onClear rows sb = Inr sb' \<and> level_inv sb'"
proof -
  let ?acc = "sb\<lparr>mScores := mScores sb + [100, 300, 500, 800] ! nat (sint rows - 1) * mCurrLevel sb,
                          mTotalCleardRows := mTotalCleardRows sb + rows,
                          mCurrCleardRows := mCurrCleardRows sb + rows\<rparr>"
  from inv have lv: "1 \<le> sint (mCurrLevel ?acc)" "sint (mCurrLevel ?acc) \<le> 15"
    by (simp_all add: level_inv_def)
  note eq = onClear_eq[OF r, of sb] tryLevelUp_eq[OF lv]
  show ?thesis
  proof (cases "sint (mCurrLevel sb) < 15")
    case False
    with inv eq show ?thesis by (simp add: level_inv_def)
  next
    case True
    note ca = cur_add[OF inv True r]
    show ?thesis
    proof (cases "sint (mCurrCleardRows sb) + sint rows \<ge> sint (mCurrLevel sb) * 5")
      case False
      with inv eq True ca r show ?thesis by (simp add: level_inv_def)
    next
      case up: True
      have l5: "sint (mCurrLevel sb * 5) = sint (mCurrLevel sb) * 5"
        using inv by (intro level_times5) (simp_all add: level_inv_def)
      have l1: "sint (mCurrLevel sb + 1) = sint (mCurrLevel sb) + 1"
        using inv by (intro level_succ) (simp_all add: level_inv_def)
      have sub: "sint (mCurrCleardRows sb + rows - mCurrLevel sb * 5)
                   = sint (mCurrCleardRows sb) + sint rows - sint (mCurrLevel sb) * 5"
        using inv True r ca l5 by (subst sint_diff_small) (auto simp: level_inv_def)
      from inv eq True ca r up l5 l1 sub show ?thesis
        by (simp add: level_inv_def)
    qed
  qed
qed

lemma onClear_inv_any:
  assumes "level_inv sb" "onClear rows sb = Inr sb'"
  shows "level_inv sb'"
proof -
  consider "sint rows \<le> 0" | "0 < sint rows" "sint rows \<le> 4" | "4 < sint rows" by linarith
  then show ?thesis
  proof cases
    case 1
    with assms show ?thesis by (simp add: onClear_0)
  next
    case 2
    with onClear_inv[OF assms(1) 2] assms(2) show ?thesis by auto
  next
    case 3
    with assms show ?thesis by (simp add: onClear_throws)
  qed
qed

lemma reachable_inv: "reachable sb \<Longrightarrow> level_inv sb"
proof (induction rule: reachable.induct)
  case reachable_reset
  show ?case by (rule level_inv_reset)
next
  case (reachable_onClear sb rows sb')
  then show ?case by (blast intro: onClear_inv_any)
next
  case (reachable_onSoftDrop sb rows)
  then show ?case by (simp add: level_inv_def onSoftDrop_def)
next
  case (reachable_onHardDrop sb rows)
  then show ?case by (simp add: level_inv_def onHardDrop_def)
qed

lemma levelUp_spec_stays:
  "\<not> (level s < 15 \<and> linesClearedThisLevel s \<ge> level s * 5) \<Longrightarrow> levelUp_spec s = s"
  by (subst levelUp_spec.simps) auto

lemma levelUp_spec_once:
  assumes "level s < 15" "linesClearedThisLevel s \<ge> level s * 5"
    "linesClearedThisLevel s - level s * 5 < (level s + 1) * 5"
  shows "levelUp_spec s =
           \<lparr>level = level s + 1, linesClearedThisLevel = linesClearedThisLevel s - level s * 5,
            ticksPerRowFall = uint (speeds ! nat (level s))\<rparr>"
  using assms by (subst levelUp_spec.simps) (simp add: levelUp_spec_stays)

lemma speeds_signed: "i < 15 \<Longrightarrow> sint (speeds ! i) = uint (speeds ! i)"
proof -
  have "list_all (\<lambda>w. sint w = uint w) speeds"
    by (simp add: speeds_def)
  moreover have "length speeds = 15" by (simp add: speeds_def)
  ultimately show "i < 15 \<Longrightarrow> sint (speeds ! i) = uint (speeds ! i)"
    by (simp add: list_all_length)
qed

lemma speeds_table:
  "length speeds = 15" "speeds ! 0 = 1000" "sorted_wrt (\<lambda>a b. b < a) speeds"
  by (simp_all add: speeds_def)

lemma points_bound:
  assumes "0 < sint (rows :: 32 word)" "sint rows \<le> 4" "1 \<le> sint (l :: 32 word)" "sint l \<le> 15"
  shows "0 \<le> sint ([100, 300, 500, 800] ! nat (sint rows - 1) * l)
         \<and> sint ([100, 300, 500, 800] ! nat (sint rows - 1) * l) \<le> 12000"
proof -
  from rows_cases[of rows] assms(1,2)
  consider "rows = 1" | "rows = 2" | "rows = 3" | "rows = 4" by auto
  then show ?thesis
  proof cases
    case 1
    have "sint (100 * l) = 100 * sint l" using assms(3,4) by (subst sint_mult_small) auto
    with 1 assms(3,4) show ?thesis by simp
  next
    case 2
    have "sint (300 * l) = 300 * sint l" using assms(3,4) by (subst sint_mult_small) auto
    with 2 assms(3,4) show ?thesis by simp
  next
    case 3
    have "sint (500 * l) = 500 * sint l" using assms(3,4) by (subst sint_mult_small) auto
    with 3 assms(3,4) show ?thesis by simp
  next
    case 4
    have "sint (800 * l) = 800 * sint l" using assms(3,4) by (subst sint_mult_small) auto
    with 4 assms(3,4) show ?thesis by simp
  qed
qed

lemma onClear_returns:
  assumes "level_inv sb" "0 \<le> sint n" "sint n \<le> 4"
  shows "\<exists>sb1. onClear n sb = Inr sb1 \<and> level_inv sb1"
proof (cases "sint n = 0")
  case True
  with assms(1) show ?thesis by (simp add: onClear_0)
next
  case False
  with assms onClear_inv[OF assms(1), of n] show ?thesis by auto
qed

lemma onClears_level_inv:
  assumes "level_inv sb" "list_all (\<lambda>n. 0 \<le> sint n \<and> sint n \<le> 4) ns"
  shows "\<exists>sb'. onClears ns sb = Inr sb' \<and> level_inv sb'"
  using assms
proof (induction ns arbitrary: sb)
  case Nil
  then show ?case by simp
next
  case (Cons n ns)
  from Cons.prems(2) have n: "0 \<le> sint n" "sint n \<le> 4"
    and ns: "list_all (\<lambda>n. 0 \<le> sint n \<and> sint n \<le> 4) ns"
    by simp_all
  from onClear_returns[OF Cons.prems(1) n] obtain sb1 where sb1: "onClear n sb = Inr sb1" "level_inv sb1"
    by blast
  from Cons.IH[OF sb1(2) ns] sb1(1) show ?case by simp
qed

lemma points_exact:
  assumes "0 < sint (rows :: 32 word)" "sint rows \<le> 4" "1 \<le> sint (l :: 32 word)" "sint l \<le> 15"
  shows "sint ([100, 300, 500, 800] ! nat (sint rows - 1) * l)
           = [100, 300, 500, 800] ! nat (sint rows - 1) * sint l"
proof -
  from rows_cases[of rows] assms(1,2)
  consider "rows = 1" | "rows = 2" | "rows = 3" | "rows = 4" by auto
  then show ?thesis
  proof cases
    case 1
    have "sint (100 * l) = 100 * sint l" using assms(3,4) by (subst sint_mult_small) auto
    with 1 show ?thesis by simp
  next
    case 2
    have "sint (300 * l) = 300 * sint l" using assms(3,4) by (subst sint_mult_small) auto
    with 2 show ?thesis by simp
  next
    case 3
    have "sint (500 * l) = 500 * sint l" using assms(3,4) by (subst sint_mult_small) auto
    with 3 show ?thesis by simp
  next
    case 4
    have "sint (800 * l) = 800 * sint l" using assms(3,4) by (subst sint_mult_small) auto
    with 4 show ?thesis by simp
  qed
qed

lemma onClear_fields:
  assumes inv: "level_inv sb" and r: "0 < sint rows" "sint rows \<le> 4"
    and res: "onClear rows sb = Inr sb'"
  shows "mScores sb' = mScores sb + [100, 300, 500, 800] ! nat (sint rows - 1) * mCurrLevel sb"
    "mTotalCleardRows sb' = mTotalCleardRows sb + rows"
    "mCurrCleardRows sb' = mCurrCleardRows sb + rows
     \<or> (sint (mCurrLevel sb) * 5 \<le> sint (mCurrCleardRows sb + rows)
        \<and> mCurrCleardRows sb' = mCurrCleardRows sb + rows - mCurrLevel sb * 5)"
proof -
  let ?acc = "sb\<lparr>mScores := mScores sb + [100, 300, 500, 800] ! nat (sint rows - 1) * mCurrLevel sb,
                          mTotalCleardRows := mTotalCleardRows sb + rows,
                          mCurrCleardRows := mCurrCleardRows sb + rows\<rparr>"
  from inv have lv: "1 \<le> sint (mCurrLevel ?acc)" "sint (mCurrLevel ?acc) \<le> 15"
    by (simp_all add: level_inv_def)
  note eq = onClear_eq[OF r, of sb] tryLevelUp_eq[OF lv]
  from res eq
  show "mScores sb' = mScores sb + [100, 300, 500, 800] ! nat (sint rows - 1) * mCurrLevel sb"
    "mTotalCleardRows sb' = mTotalCleardRows sb + rows"
    "mCurrCleardRows sb' = mCurrCleardRows sb + rows
     \<or> (sint (mCurrLevel sb) * 5 \<le> sint (mCurrCleardRows sb + rows)
        \<and> mCurrCleardRows sb' = mCurrCleardRows sb + rows - mCurrLevel sb * 5)"
    by (auto split: if_splits)
qed

lemma exact_points_bounds:
  assumes "level_inv sb" "list_all (\<lambda>n. 0 \<le> sint n \<and> sint n \<le> 4) ns"
  shows "0 \<le> exact_points ns sb \<and> exact_points ns sb \<le> 12000 * int (length ns)"
  using assms
proof (induction ns arbitrary: sb)
  case Nil
  then show ?case by simp
next
  case (Cons n ns)
  from Cons.prems(2) have n: "0 \<le> sint n" "sint n \<le> 4"
    and ns: "list_all (\<lambda>n. 0 \<le> sint n \<and> sint n \<le> 4) ns"
    by simp_all
  from Cons.prems(1) have lv: "1 \<le> sint (mCurrLevel sb)" "sint (mCurrLevel sb) \<le> 15"
    by (simp_all add: level_inv_def)
  from onClear_returns[OF Cons.prems(1) n] obtain sb1 where sb1: "onClear n sb = Inr sb1" "level_inv sb1"
    by blast
  have p: "0 \<le> (if sint n > 0 then [100, 300, 500, 800] ! nat (sint n - 1) * sint (mCurrLevel sb) else 0)
           \<and> (if sint n > 0 then [100, 300, 500, 800] ! nat (sint n - 1) * sint (mCurrLevel sb) else 0) \<le> 12000"
  proof (cases "0 < sint n")
    case True
    from points_bound[OF True n(2) lv] points_exact[OF True n(2) lv] True show ?thesis by simp
  next
    case False
    then show ?thesis by simp
  qed
  from Cons.IH[OF sb1(2) ns] p sb1(1) show ?case by simp
qed

lemma exact_lines_bounds:
  assumes "list_all (\<lambda>n. 0 \<le> sint n \<and> sint n \<le> 4) ns"
  shows "0 \<le> exact_lines ns \<and> exact_lines ns \<le> 4 * int (length ns)"
  using assms by (induction ns) (auto simp: exact_lines_def)

lemma onClears_score_exact:
  assumes "level_inv sb" "list_all (\<lambda>n. 0 \<le> sint n \<and> sint n \<le> 4) ns"
    "onClears ns sb = Inr sb'" "0 \<le> sint (mScores sb)"
    "sint (mScores sb) + exact_points ns sb < 2147483648"
  shows "sint (mScores sb') = sint (mScores sb) + exact_points ns sb"
  using assms
proof (induction ns arbitrary: sb)
  case Nil
  then show ?case by simp
next
  case (Cons n ns)
  from Cons.prems(2) have n: "0 \<le> sint n" "sint n \<le> 4"
    and ns: "list_all (\<lambda>n. 0 \<le> sint n \<and> sint n \<le> 4) ns"
    by simp_all
  from Cons.prems(1) have lv: "1 \<le> sint (mCurrLevel sb)" "sint (mCurrLevel sb) \<le> 15"
    by (simp_all add: level_inv_def)
  from onClear_returns[OF Cons.prems(1) n] obtain sb1 where sb1: "onClear n sb = Inr sb1" "level_inv sb1"
    by blast
  from Cons.prems(3) sb1(1) have run: "onClears ns sb1 = Inr sb'" by simp
  from exact_points_bounds[OF sb1(2) ns] have rest: "0 \<le> exact_points ns sb1" by simp
  show ?case
  proof (cases "0 < sint n")
    case False
    with n have "sint n = 0" by simp
    with sb1(1) have same: "sb1 = sb" by (simp add: onClear_0)
    from Cons.prems(5) sb1(1) False have "sint (mScores sb) + exact_points ns sb1 < 2147483648"
      by simp
    from Cons.IH[OF sb1(2) ns run] Cons.prems(4) this same sb1(1) False show ?thesis by simp
  next
    case True
    let ?p = "[100, 300, 500, 800] ! nat (sint n - 1) * mCurrLevel sb"
    from points_bound[OF True n(2) lv] have p: "0 \<le> sint ?p" by simp
    note pe = points_exact[OF True n(2) lv]
    from Cons.prems(5) sb1(1) True pe
    have tot: "sint (mScores sb) + sint ?p + exact_points ns sb1 < 2147483648" by simp
    have sc: "sint (mScores sb + ?p) = sint (mScores sb) + sint ?p"
      using Cons.prems(4) p tot rest by (subst sint_add_small) auto
    from onClear_fields(1)[OF Cons.prems(1) True n(2) sb1(1)] sc
    have s1: "sint (mScores sb1) = sint (mScores sb) + sint ?p" by simp
    with Cons.prems(4) p have nn: "0 \<le> sint (mScores sb1)" by simp
    from tot s1 have "sint (mScores sb1) + exact_points ns sb1 < 2147483648" by simp
    from Cons.IH[OF sb1(2) ns run nn this] s1 pe sb1(1) True show ?thesis by simp
  qed
qed

lemma onClears_lines_exact:
  assumes "level_inv sb" "list_all (\<lambda>n. 0 \<le> sint n \<and> sint n \<le> 4) ns"
    "onClears ns sb = Inr sb'"
    "0 \<le> sint (mCurrCleardRows sb)" "sint (mCurrCleardRows sb) \<le> sint (mTotalCleardRows sb)"
    "sint (mTotalCleardRows sb) + exact_lines ns < 2147483648"
  shows "sint (mTotalCleardRows sb') = sint (mTotalCleardRows sb) + exact_lines ns
         \<and> 0 \<le> sint (mCurrCleardRows sb') \<and> sint (mCurrCleardRows sb') \<le> sint (mTotalCleardRows sb')"
  using assms
proof (induction ns arbitrary: sb)
  case Nil
  then show ?case by (simp add: exact_lines_def)
next
  case (Cons n ns)
  from Cons.prems(2) have n: "0 \<le> sint n" "sint n \<le> 4"
    and ns: "list_all (\<lambda>n. 0 \<le> sint n \<and> sint n \<le> 4) ns"
    by simp_all
  from Cons.prems(1) have lv: "1 \<le> sint (mCurrLevel sb)" "sint (mCurrLevel sb) \<le> 15"
    by (simp_all add: level_inv_def)
  from onClear_returns[OF Cons.prems(1) n] obtain sb1 where sb1: "onClear n sb = Inr sb1" "level_inv sb1"
    by blast
  from Cons.prems(3) sb1(1) have run: "onClears ns sb1 = Inr sb'" by simp
  from exact_lines_bounds[OF ns] have rest: "0 \<le> exact_lines ns" by simp
  have split: "exact_lines (n # ns) = sint n + exact_lines ns" by (simp add: exact_lines_def)
  show ?case
  proof (cases "0 < sint n")
    case False
    with n have "sint n = 0" by simp
    with sb1(1) have same: "sb1 = sb" by (simp add: onClear_0)
    from Cons.IH[OF sb1(2) ns run] Cons.prems(4,5,6) same split \<open>sint n = 0\<close> show ?thesis by simp
  next
    case True
    from Cons.prems(6) split have b: "sint (mTotalCleardRows sb) + sint n + exact_lines ns < 2147483648"
      by simp
    have tot: "sint (mTotalCleardRows sb + n) = sint (mTotalCleardRows sb) + sint n"
      using Cons.prems(4,5) b rest True by (subst sint_add_small) auto
    have cur: "sint (mCurrCleardRows sb + n) = sint (mCurrCleardRows sb) + sint n"
      using Cons.prems(4,5) b rest True by (subst sint_add_small) auto
    have l5: "sint (mCurrLevel sb * 5) = sint (mCurrLevel sb) * 5"
      using lv by (rule level_times5)
    have sub: "sint (mCurrCleardRows sb + n - mCurrLevel sb * 5)
               = sint (mCurrCleardRows sb) + sint n - sint (mCurrLevel sb) * 5"
      using Cons.prems(4,5) b rest True lv cur l5 by (subst sint_diff_small) auto
    note f = onClear_fields[OF Cons.prems(1) True n(2) sb1(1)]
    from f(2) tot have t1: "sint (mTotalCleardRows sb1) = sint (mTotalCleardRows sb) + sint n" by simp
    from f(3) cur sub lv Cons.prems(4,5) True t1
    have c1: "0 \<le> sint (mCurrCleardRows sb1)" "sint (mCurrCleardRows sb1) \<le> sint (mTotalCleardRows sb1)"
      by auto
    from b t1 have "sint (mTotalCleardRows sb1) + exact_lines ns < 2147483648" by simp
    from Cons.IH[OF sb1(2) ns run c1 this] t1 split show ?thesis by simp
  qed
qed

lemma onClears_append:
  "onClears (xs @ ys) sb = (case onClears xs sb of Inl e \<Rightarrow> Inl e | Inr sb' \<Rightarrow> onClears ys sb')"
  by (induction xs arbitrary: sb) (auto split: sum.splits)

lemma onClear_at_15:
  "mCurrLevel sb = 15 \<Longrightarrow>
     onClear 4 sb = Inr (sb\<lparr>mScores := mScores sb + 12000,
                            mTotalCleardRows := mTotalCleardRows sb + 4,
                            mCurrCleardRows := mCurrCleardRows sb + 4\<rparr>)"
  by (simp add: onClear_def tryLevelUp_def)

lemma onClears_at_15:
  "mCurrLevel sb = 15 \<Longrightarrow>
     onClears (replicate n 4) sb =
       Inr (sb\<lparr>mScores := mScores sb + of_nat n * 12000,
               mTotalCleardRows := mTotalCleardRows sb + of_nat n * 4,
               mCurrCleardRows := mCurrCleardRows sb + of_nat n * 4\<rparr>)"
proof (induction n arbitrary: sb)
  case 0
  then show ?case by simp
next
  case (Suc n)
  let ?sb1 = "sb\<lparr>mScores := mScores sb + 12000,
                            mTotalCleardRows := mTotalCleardRows sb + 4,
                            mCurrCleardRows := mCurrCleardRows sb + 4\<rparr>"
  have l: "mCurrLevel ?sb1 = 15" using Suc.prems by simp
  show ?case
    using Suc.prems Suc.IH[OF l] by (simp add: onClear_at_15 algebra_simps)
qed

lemma first_132:
  "onClears (replicate 132 4) ScoreBoard_reset =
     Inr \<lparr>mTicksPerRow = 7, mCurrLevel = 15, mCurrCleardRows = 3, mTotalCleardRows = 528,
          mScores = 1019200\<rparr>"
  by code_simp

lemma scoreBoard_4_lines_reachable: "reachable scoreBoard_4_lines"
proof -
  have "onClear 4 ScoreBoard_reset = Inr scoreBoard_4_lines"
    by (simp add: onClear_def tryLevelUp_def ScoreBoard_reset_def scoreBoard_4_lines_def)
  with reachable_reset show ?thesis by (rule reachable_onClear)
qed

text \<open>
  C5. On every score board the program can reach, \<open>onClear(rows)\<close> with
  \<open>1 \<le> rows \<le> 4\<close> does not throw, and after the score and the two line counters
  are brought up to date, the single guarded step of \<open>tryLevelUp\<close> leaves level,
  per-level counter and speed as the rule of the specification does: while
  \<open>level < 15\<close> and the per-level counter is at least \<open>level * 5\<close>, subtract that
  threshold, increment the level and take the speed of the new level from the table.
  The table has 15 entries, starts with 1000 and decreases strictly.
\<close>

theorem C5_level_up_rule:
  assumes "reachable sb" and "0 < sint rows" and "sint rows \<le> 4"
  shows "\<exists>acc sb'.
           acc = sb\<lparr>mScores := mScores sb + [100, 300, 500, 800] ! nat (sint rows - 1) * mCurrLevel sb,
                     mTotalCleardRows := mTotalCleardRows sb + rows,
                     mCurrCleardRows := mCurrCleardRows sb + rows\<rparr>
         \<and> onClear rows sb = Inr sb' \<and> tryLevelUp acc = Inr sb'
         \<and> LevelState_of sb' = levelUp_spec (LevelState_of acc)
         \<and> mScores sb' = mScores acc \<and> mTotalCleardRows sb' = mTotalCleardRows acc
         \<and> length speeds = 15 \<and> speeds ! 0 = 1000 \<and> sorted_wrt (\<lambda>a b. b < a) speeds"
proof -
  let ?acc = "sb\<lparr>mScores := mScores sb + [100, 300, 500, 800] ! nat (sint rows - 1) * mCurrLevel sb,
                          mTotalCleardRows := mTotalCleardRows sb + rows,
                          mCurrCleardRows := mCurrCleardRows sb + rows\<rparr>"
  have inv: "level_inv sb" using assms(1) by (rule reachable_inv)
  then have lv: "1 \<le> sint (mCurrLevel ?acc)" "sint (mCurrLevel ?acc) \<le> 15"
    by (simp_all add: level_inv_def)
  note r = assms(2,3)
  note eq = onClear_eq[OF r, of sb] tryLevelUp_eq[OF lv]
  have main: "\<exists>sb'. tryLevelUp ?acc = Inr sb' \<and> LevelState_of sb' = levelUp_spec (LevelState_of ?acc)
                 \<and> mScores sb' = mScores ?acc \<and> mTotalCleardRows sb' = mTotalCleardRows ?acc"
  proof (cases "sint (mCurrLevel sb) < 15")
    case False
    then have "levelUp_spec (LevelState_of ?acc) = LevelState_of ?acc"
      by (intro levelUp_spec_stays) (simp add: LevelState_of_def)
    with False eq show ?thesis by simp
  next
    case True
    note ca = cur_add[OF inv True r]
    show ?thesis
    proof (cases "sint (mCurrCleardRows sb) + sint rows \<ge> sint (mCurrLevel sb) * 5")
      case False
      then have "levelUp_spec (LevelState_of ?acc) = LevelState_of ?acc"
        using ca by (intro levelUp_spec_stays) (simp add: LevelState_of_def)
      with False eq ca show ?thesis by simp
    next
      case up: True
      have l5: "sint (mCurrLevel sb * 5) = sint (mCurrLevel sb) * 5"
        using inv by (intro level_times5) (simp_all add: level_inv_def)
      have l1: "sint (mCurrLevel sb + 1) = sint (mCurrLevel sb) + 1"
        using inv by (intro level_succ) (simp_all add: level_inv_def)
      have sub: "sint (mCurrCleardRows sb + rows - mCurrLevel sb * 5)
                   = sint (mCurrCleardRows sb) + sint rows - sint (mCurrLevel sb) * 5"
        using inv True r ca l5 by (subst sint_diff_small) (auto simp: level_inv_def)
      have sp: "sint (speeds ! nat (sint (mCurrLevel sb))) = uint (speeds ! nat (sint (mCurrLevel sb)))"
        using True inv by (intro speeds_signed) (simp add: level_inv_def)
      have "levelUp_spec (LevelState_of ?acc) =
              \<lparr>level = sint (mCurrLevel sb) + 1,
               linesClearedThisLevel = sint (mCurrCleardRows sb) + sint rows - sint (mCurrLevel sb) * 5,
               ticksPerRowFall = uint (speeds ! nat (sint (mCurrLevel sb)))\<rparr>"
        using True up ca inv r
        by (subst levelUp_spec_once) (auto simp: LevelState_of_def level_inv_def)
      with True up eq ca l1 sub sp show ?thesis
        by (simp add: LevelState_of_def)
    qed
  qed
  with eq(1) speeds_table show ?thesis by auto
qed

text \<open>The fifth line at level 1 raises the level to 2 and the speed to 793 ms per row.\<close>

theorem C5_level_up_rule_witness:
  "reachable scoreBoard_4_lines \<and> sint (1 :: cint) = 1
   \<and> onClear 1 scoreBoard_4_lines =
       Inr \<lparr>mTicksPerRow = 793, mCurrLevel = 2, mCurrCleardRows = 0, mTotalCleardRows = 5,
            mScores = 900\<rparr>
   \<and> levelUp_spec \<lparr>level = 1, linesClearedThisLevel = 5, ticksPerRowFall = 1000\<rparr>
       = \<lparr>level = 2, linesClearedThisLevel = 0, ticksPerRowFall = 793\<rparr>"
proof -
  have r: "0 < sint (1 :: cint)" "sint (1 :: cint) \<le> 4" by simp_all
  from C5_level_up_rule[OF scoreBoard_4_lines_reachable r]
  obtain acc sb' where a:
    "acc = scoreBoard_4_lines\<lparr>mScores := mScores scoreBoard_4_lines
                                   + [100, 300, 500, 800] ! nat (sint (1 :: cint) - 1) * mCurrLevel scoreBoard_4_lines,
                     mTotalCleardRows := mTotalCleardRows scoreBoard_4_lines + 1,
                     mCurrCleardRows := mCurrCleardRows scoreBoard_4_lines + 1\<rparr>"
    "onClear 1 scoreBoard_4_lines = Inr sb'"
    "LevelState_of sb' = levelUp_spec (LevelState_of acc)"
    by blast
  have e: "onClear 1 scoreBoard_4_lines =
       Inr \<lparr>mTicksPerRow = 793, mCurrLevel = 2, mCurrCleardRows = 0, mTotalCleardRows = 5,
            mScores = 900\<rparr>"
    by (simp add: onClear_def tryLevelUp_def scoreBoard_4_lines_def speeds_def)
  from a(1) have acc: "LevelState_of acc = \<lparr>level = 1, linesClearedThisLevel = 5, ticksPerRowFall = 1000\<rparr>"
    by (simp add: LevelState_of_def scoreBoard_4_lines_def)
  from a(2) e have "LevelState_of sb' = \<lparr>level = 2, linesClearedThisLevel = 0, ticksPerRowFall = 793\<rparr>"
    by (auto simp: LevelState_of_def)
  with a(3) acc e scoreBoard_4_lines_reachable show ?thesis by simp
qed

text \<open>
  C9 (as amended). From \<open>reset\<close>, under any sequence of \<open>onClear(n)\<close> with
  \<open>0 \<le> n \<le> 4\<close>, after each call (that is, after the first \<open>m\<close> calls, for every
  \<open>m\<close>): no call has thrown, the level is within 1 and 15, and if the level is below
  15 the per-level counter is at least 0 and below \<open>level * 5\<close>. The points awarded so
  far are between 0 and \<open>12000 * m\<close> and the lines cleared so far between 0 and
  \<open>4 * m\<close>. As long as the points awarded are below \<open>2^31\<close> the score is exactly
  their sum, hence non-negative; as long as the lines cleared are below \<open>2^31\<close> the
  total line counter is exactly their sum and the per-level counter lies between 0 and
  the total, hence both are non-negative. The three counters are 32-bit \<open>int\<close>s;
  beyond those sums they wrap.
\<close>

theorem C9_scoreboard_invariant:
  assumes "list_all (\<lambda>n. 0 \<le> sint n \<and> sint n \<le> 4) ns"
  shows "\<forall>m \<le> length ns.
           \<exists>sb. onClears (take m ns) ScoreBoard_reset = Inr sb
             \<and> 1 \<le> sint (mCurrLevel sb) \<and> sint (mCurrLevel sb) \<le> 15
             \<and> (sint (mCurrLevel sb) < 15 \<longrightarrow>
                   0 \<le> sint (mCurrCleardRows sb)
                   \<and> sint (mCurrCleardRows sb) < sint (mCurrLevel sb) * 5)
             \<and> 0 \<le> exact_points (take m ns) ScoreBoard_reset
             \<and> exact_points (take m ns) ScoreBoard_reset \<le> 12000 * int m
             \<and> (exact_points (take m ns) ScoreBoard_reset < 2 ^ 31 \<longrightarrow>
                   sint (mScores sb) = exact_points (take m ns) ScoreBoard_reset)
             \<and> 0 \<le> exact_lines (take m ns) \<and> exact_lines (take m ns) \<le> 4 * int m
             \<and> (exact_lines (take m ns) < 2 ^ 31 \<longrightarrow>
                   sint (mTotalCleardRows sb) = exact_lines (take m ns)
                   \<and> 0 \<le> sint (mCurrCleardRows sb)
                   \<and> sint (mCurrCleardRows sb) \<le> sint (mTotalCleardRows sb))"
proof (intro allI impI)
  fix m assume m: "m \<le> length ns"
  from assms have pre: "list_all (\<lambda>n. 0 \<le> sint n \<and> sint n \<le> 4) (take m ns)"
    by (auto simp: list_all_iff dest: in_set_takeD)
  from m have len: "length (take m ns) = m" by simp
  from onClears_level_inv[OF level_inv_reset pre] obtain sb where
    sb: "onClears (take m ns) ScoreBoard_reset = Inr sb" "level_inv sb"
    by blast
  have z: "sint (mScores ScoreBoard_reset) = 0" "sint (mTotalCleardRows ScoreBoard_reset) = 0"
    "sint (mCurrCleardRows ScoreBoard_reset) = 0"
    by (simp_all add: ScoreBoard_reset_def)
  note pb = exact_points_bounds[OF level_inv_reset pre, unfolded len]
  note lb = exact_lines_bounds[OF pre, unfolded len]
  have sc: "sint (mScores sb) = exact_points (take m ns) ScoreBoard_reset"
    if "exact_points (take m ns) ScoreBoard_reset < 2 ^ 31"
    using onClears_score_exact[OF level_inv_reset pre sb(1)] that z by simp
  have ln: "sint (mTotalCleardRows sb) = exact_lines (take m ns)
                   \<and> 0 \<le> sint (mCurrCleardRows sb)
                   \<and> sint (mCurrCleardRows sb) \<le> sint (mTotalCleardRows sb)"
    if "exact_lines (take m ns) < 2 ^ 31"
    using onClears_lines_exact[OF level_inv_reset pre sb(1)] that z by simp
  from sb pb lb sc ln
  show "\<exists>sb. onClears (take m ns) ScoreBoard_reset = Inr sb
             \<and> 1 \<le> sint (mCurrLevel sb) \<and> sint (mCurrLevel sb) \<le> 15
             \<and> (sint (mCurrLevel sb) < 15 \<longrightarrow>
                   0 \<le> sint (mCurrCleardRows sb)
                   \<and> sint (mCurrCleardRows sb) < sint (mCurrLevel sb) * 5)
             \<and> 0 \<le> exact_points (take m ns) ScoreBoard_reset
             \<and> exact_points (take m ns) ScoreBoard_reset \<le> 12000 * int m
             \<and> (exact_points (take m ns) ScoreBoard_reset < 2 ^ 31 \<longrightarrow>
                   sint (mScores sb) = exact_points (take m ns) ScoreBoard_reset)
             \<and> 0 \<le> exact_lines (take m ns) \<and> exact_lines (take m ns) \<le> 4 * int m
             \<and> (exact_lines (take m ns) < 2 ^ 31 \<longrightarrow>
                   sint (mTotalCleardRows sb) = exact_lines (take m ns)
                   \<and> 0 \<le> sint (mCurrCleardRows sb)
                   \<and> sint (mCurrCleardRows sb) \<le> sint (mTotalCleardRows sb))"
    by (auto simp: level_inv_def)
qed

text \<open>Four calls, the second of which raises the level: the state after two and after four.\<close>

theorem C9_scoreboard_invariant_witness:
  "list_all (\<lambda>n. 0 \<le> sint n \<and> sint n \<le> 4) [4, 1, 0, 2 :: cint]
   \<and> onClears (take 2 [4, 1, 0, 2]) ScoreBoard_reset =
       Inr \<lparr>mTicksPerRow = 793, mCurrLevel = 2, mCurrCleardRows = 0, mTotalCleardRows = 5,
            mScores = 900\<rparr>
   \<and> onClears (take 4 [4, 1, 0, 2]) ScoreBoard_reset =
       Inr \<lparr>mTicksPerRow = 793, mCurrLevel = 2, mCurrCleardRows = 2, mTotalCleardRows = 7,
            mScores = 1500\<rparr>
   \<and> exact_points (take 4 [4, 1, 0, 2]) ScoreBoard_reset = 1500
   \<and> exact_lines (take 4 [4, 1, 0, 2]) = 7
   \<and> sint (2 :: cint) = 2 \<and> sint (1500 :: cint) = 1500 \<and> sint (7 :: cint) = 7"
proof -
  have h: "list_all (\<lambda>n. 0 \<le> sint n \<and> sint n \<le> 4) [4, 1, 0, 2 :: cint]" by simp
  have e2: "onClears (take 2 [4, 1, 0, 2]) ScoreBoard_reset =
       Inr \<lparr>mTicksPerRow = 793, mCurrLevel = 2, mCurrCleardRows = 0, mTotalCleardRows = 5,
            mScores = 900\<rparr>"
    by (simp add: onClear_def tryLevelUp_def ScoreBoard_reset_def speeds_def)
  have e4: "onClears (take 4 [4, 1, 0, 2]) ScoreBoard_reset =
       Inr \<lparr>mTicksPerRow = 793, mCurrLevel = 2, mCurrCleardRows = 2, mTotalCleardRows = 7,
            mScores = 1500\<rparr>"
    by (simp add: onClear_def tryLevelUp_def ScoreBoard_reset_def speeds_def)
  have p4: "exact_points (take 4 [4, 1, 0, 2]) ScoreBoard_reset = 1500"
    by (simp add: onClear_def tryLevelUp_def ScoreBoard_reset_def speeds_def)
  have l4: "exact_lines (take 4 [4, 1, 0, 2]) = 7"
    by (simp add: exact_lines_def)
  from C9_scoreboard_invariant[OF h] e2 e4 p4 l4 h show ?thesis by simp
qed

text \<open>
  C9 as stated fails for the score and for both line counters. 132 four-line clears
  reach level 15 with 1019200 points, 528 lines in all and 3 lines at the level; every
  further one adds 12000 points and 4 lines to each counter. After 179005 calls in all
  the 32-bit score has wrapped to a negative value, and after 536871044 calls both
  line counters have.
\<close>

theorem C9_score_wraps_counterexample:
  "set (replicate 179005 (4 :: cint)) = {4} \<and> set (replicate 536871044 (4 :: cint)) = {4}
   \<and> sint (4 :: cint) = 4
   \<and> onClears (replicate 179005 4) ScoreBoard_reset =
       Inr \<lparr>mTicksPerRow = 7, mCurrLevel = 15, mCurrCleardRows = 715495,
            mTotalCleardRows = 716020, mScores = 2147495200\<rparr>
   \<and> sint (2147495200 :: cint) = - 2147472096
   \<and> onClears (replicate 536871044 4) ScoreBoard_reset =
       Inr \<lparr>mTicksPerRow = 7, mCurrLevel = 15, mCurrCleardRows = 2147483651,
            mTotalCleardRows = 2147484176, mScores = 1019200\<rparr>
   \<and> sint (2147483651 :: cint) = - 2147483645 \<and> sint (2147484176 :: cint) = - 2147483120"
proof -
  have sp: "replicate 179005 (4 :: cint) = replicate 132 4 @ replicate 178873 4"
    by (simp add: replicate_add[symmetric])
  have score: "onClears (replicate 179005 4) ScoreBoard_reset =
       Inr \<lparr>mTicksPerRow = 7, mCurrLevel = 15, mCurrCleardRows = 715495,
            mTotalCleardRows = 716020, mScores = 2147495200\<rparr>"
    unfolding sp onClears_append first_132 by (simp add: onClears_at_15)
  have sq: "replicate 536871044 (4 :: cint) = replicate 132 4 @ replicate 536870912 4"
    by (simp add: replicate_add[symmetric])
  have lines: "onClears (replicate 536871044 4) ScoreBoard_reset =
       Inr \<lparr>mTicksPerRow = 7, mCurrLevel = 15, mCurrCleardRows = 2147483651,
            mTotalCleardRows = 2147484176, mScores = 1019200\<rparr>"
    unfolding sq onClears_append first_132 by (simp add: onClears_at_15)
  from score lines show ?thesis by simp
qed

subsection \<open>Lock delay\<close>



lemma kind_unlock [simp]: "kind (unlock pf now t) = kind t"
  by (simp add: unlock_def)

lemma kind_moveLeft [simp]: "kind (moveLeft pf now t) = kind t"
  by (simp add: moveLeft_def)

lemma kind_moveRight [simp]: "kind (moveRight pf now t) = kind t"
  by (simp add: moveRight_def)

lemma kind_softDrop [simp]: "kind (fst (softDrop pf now rows t)) = kind t"
  by (simp add: softDrop_def Let_def lock_def)



lemma shift_key:
  assumes "key = SDLK_LEFT \<or> key = SDLK_RIGHT"
  shows "\<exists>g'. onKeyDown rs wall key False g = Inr g' \<and> undisturbed g g'"
  using assms by (auto simp: onKeyDown_def Let_def undisturbed_def)






lemma blockedBelow_split:
  "blockedBelow pf (split_cells t) = isFilled pf (split_with t (mLeft t) (mBottom t + 1))"
proof -
  have "isFilled pf (shiftRows 1 cells) = blockedBelow pf cells" for cells
    by (cases cells) (simp add: isFilled_def blockedBelow_def shiftRows_def)
  then show ?thesis by (simp add: split_with_def split_cells_def split_at_shift)
qed


































end
